theory Spec2Isabelle
  imports Complex_Main "HOL-Library.Word"
begin

unbundle bit_operations_syntax

section \<open>JavaScript values\<close>

text \<open>
  A JavaScript string is a sequence of UTF-16 code units; a \<open>Uint8Array\<close> is a sequence of
  bytes and an \<open>Int16Array\<close> a sequence of 16-bit two's complement integers (read with
  \<open>sint\<close>).
\<close>

type_synonym jsstring = "16 word list"
type_synonym Uint8Array = "8 word list"
type_synonym Int16Array = "16 word list"

text \<open>The exceptions the modelled code can raise, as values.\<close>

datatype error = InvalidCharacterError | RangeError | NotSupportedError | TypeError

text \<open>An ASCII literal of the source as a JavaScript string.\<close>

definition js :: "string \<Rightarrow> jsstring" where
  "js s = map (\<lambda>c. of_nat (of_char c)) s"

section \<open>The platform's base64 functions\<close>

text \<open>
  \<open>btoa\<close> and \<open>atob\<close> are browser functions, modelled after the HTML standard: \<open>btoa\<close>
  raises \<open>InvalidCharacterError\<close> on a code unit above U+00FF and otherwise base64-encodes
  the code units as bytes (RFC 4648, with padding); \<open>atob\<close> is the standard's
  forgiving-base64 decode.
\<close>

definition b64_char :: "nat \<Rightarrow> 16 word" where
  "b64_char n =
     (if n < 26 then of_nat (65 + n)
      else if n < 52 then of_nat (97 + (n - 26))
      else if n < 62 then of_nat (48 + (n - 52))
      else if n = 62 then 43
      else 47)"

definition b64_index :: "16 word \<Rightarrow> nat option" where
  "b64_index c =
     (let k = unat c in
      if 65 \<le> k \<and> k \<le> 90 then Some (k - 65)
      else if 97 \<le> k \<and> k \<le> 122 then Some (k - 97 + 26)
      else if 48 \<le> k \<and> k \<le> 57 then Some (k - 48 + 52)
      else if k = 43 then Some 62
      else if k = 47 then Some 63
      else None)"

text \<open>Three bytes make four characters; one or two trailing bytes are padded with \<open>=\<close> (61).\<close>

fun base64_encode :: "Uint8Array \<Rightarrow> jsstring" where
  "base64_encode (a # b # c # rest) =
     (let n = unat a * 65536 + unat b * 256 + unat c in
      [b64_char (n div 262144), b64_char (n div 4096 mod 64),
       b64_char (n div 64 mod 64), b64_char (n mod 64)] @ base64_encode rest)"
| "base64_encode [a, b] =
     (let n = unat a * 65536 + unat b * 256 in
      [b64_char (n div 262144), b64_char (n div 4096 mod 64), b64_char (n div 64 mod 64), 61])"
| "base64_encode [a] =
     (let n = unat a * 65536 in
      [b64_char (n div 262144), b64_char (n div 4096 mod 64), 61, 61])"
| "base64_encode [] = []"

definition btoa :: "jsstring \<Rightarrow> error + jsstring" where
  "btoa s =
     (if \<exists>c \<in> set s. 255 < c then Inl InvalidCharacterError
      else Inr (base64_encode (map ucast s)))"

definition ascii_whitespace :: "16 word \<Rightarrow> bool" where
  "ascii_whitespace c \<longleftrightarrow> c = 9 \<or> c = 10 \<or> c = 12 \<or> c = 13 \<or> c = 32"

text \<open>
  Step 2 of forgiving-base64 decode: when the length is a multiple of four, one or two
  trailing \<open>=\<close> are removed.
\<close>

definition strip_padding :: "jsstring \<Rightarrow> jsstring" where
  "strip_padding d =
     (if length d mod 4 = 0 then
        (if 2 \<le> length d \<and> last d = 61 \<and> last (butlast d) = 61 then butlast (butlast d)
         else if d \<noteq> [] \<and> last d = 61 then butlast d
         else d)
      else d)"

text \<open>
  The bit buffer of the standard: four 6-bit values give three bytes; a remainder of three
  values (18 bits) gives two bytes, of two values (12 bits) one byte, the low bits being
  discarded.
\<close>

fun decode_sextets :: "nat list \<Rightarrow> Uint8Array" where
  "decode_sextets (a # b # c # d # rest) =
     (let n = a * 262144 + b * 4096 + c * 64 + d in
      [of_nat (n div 65536), of_nat (n div 256 mod 256), of_nat (n mod 256)]
        @ decode_sextets rest)"
| "decode_sextets [a, b, c] =
     (let n = (a * 4096 + b * 64 + c) div 4 in [of_nat (n div 256), of_nat (n mod 256)])"
| "decode_sextets [a, b] = [of_nat ((a * 64 + b) div 16)]"
| "decode_sextets [a] = []"
| "decode_sextets [] = []"

definition forgiving_base64_decode :: "jsstring \<Rightarrow> Uint8Array option" where
  "forgiving_base64_decode data =
     (let d = strip_padding (filter (\<lambda>c. \<not> ascii_whitespace c) data) in
      if length d mod 4 = 1 then None
      else case those (map b64_index d) of
             None \<Rightarrow> None
           | Some sextets \<Rightarrow> Some (decode_sextets sextets))"

definition atob :: "jsstring \<Rightarrow> error + jsstring" where
  "atob s =
     (case forgiving_base64_decode s of
        None \<Rightarrow> Inl InvalidCharacterError
      | Some bytes \<Rightarrow> Inr (map ucast bytes))"

section \<open>Audio codec helpers of App.tsx\<close>

text \<open>
  \<open>decode\<close>: \<open>atob\<close>, then a loop that stores the code unit at each index into a fresh
  \<open>Uint8Array\<close> of the same length (a store into a \<open>Uint8Array\<close> keeps the low eight bits).
\<close>

definition decode :: "jsstring \<Rightarrow> error + Uint8Array" where
  "decode base64 =
     (case atob base64 of
        Inl e \<Rightarrow> Inl e
      | Inr binaryString \<Rightarrow>
          (let len = length binaryString in
           Inr (fold (\<lambda>i bytes. bytes[i := ucast (binaryString ! i)]) [0..<len]
                  (replicate len 0))))"

text \<open>
  \<open>encode\<close>: a loop that appends \<open>String.fromCharCode(bytes[i])\<close> to \<open>binary\<close>, then
  \<open>btoa\<close>.
\<close>

definition encode :: "Uint8Array \<Rightarrow> error + jsstring" where
  "encode bytes = btoa (fold (\<lambda>b binary. binary @ [ucast b]) bytes [])"

text \<open>Helpers of the round-trip proof: the 6-bit values and the padding \<open>base64_encode\<close> writes.\<close>

fun sextets_of :: "Uint8Array \<Rightarrow> nat list" where
  "sextets_of (a # b # c # rest) =
     (let n = unat a * 65536 + unat b * 256 + unat c in
      [n div 262144, n div 4096 mod 64, n div 64 mod 64, n mod 64] @ sextets_of rest)"
| "sextets_of [a, b] =
     (let n = unat a * 65536 + unat b * 256 in
      [n div 262144, n div 4096 mod 64, n div 64 mod 64])"
| "sextets_of [a] = (let n = unat a * 65536 in [n div 262144, n div 4096 mod 64])"
| "sextets_of [] = []"

fun padding_of :: "Uint8Array \<Rightarrow> jsstring" where
  "padding_of (a # b # c # rest) = padding_of rest"
| "padding_of [a, b] = [61]"
| "padding_of [a] = [61, 61]"
| "padding_of [] = []"

section \<open>Numbers and typed arrays\<close>

text \<open>
  A JavaScript number is an IEEE double; the model keeps the finite values as exact
  rationals and the three special values apart. Every finite value the modelled code
  computes (a 32-bit float times 32768, a 16-bit integer divided by 32768, sums of buffer
  durations in the examples) is computed here without rounding.
\<close>

datatype number = Num rat | NaN | PosInf | NegInf

text \<open>\<open>x * 32768\<close> on numbers.\<close>

definition times_32768 :: "number \<Rightarrow> number" where
  "times_32768 v =
     (case v of Num x \<Rightarrow> Num (x * 32768) | NaN \<Rightarrow> NaN | PosInf \<Rightarrow> PosInf
      | NegInf \<Rightarrow> NegInf)"

text \<open>Rounding towards zero, the integer part ECMAScript takes before a modular conversion.\<close>

definition js_truncate :: "rat \<Rightarrow> int" where
  "js_truncate x = (if 0 \<le> x then \<lfloor>x\<rfloor> else \<lceil>x\<rceil>)"

text \<open>
  A store into an \<open>Int16Array\<close> applies ECMAScript's \<open>ToInt16\<close>: NaN and the infinities give
  0, a finite value is truncated and reduced modulo \<open>2 ^ 16\<close>.
\<close>

definition ToInt16 :: "number \<Rightarrow> 16 word" where
  "ToInt16 v = (case v of Num x \<Rightarrow> word_of_int (js_truncate x) | _ \<Rightarrow> 0)"

text \<open>
  The Web IDL conversion of a non-negative finite number to \<open>unsigned long\<close>: the integer
  part modulo \<open>2 ^ 32\<close>.
\<close>

definition ToUint32 :: "rat \<Rightarrow> nat" where
  "ToUint32 q = nat (\<lfloor>q\<rfloor> mod 2 ^ 32)"

text \<open>
  A \<open>Uint8Array\<close> object is a window of \<open>byteLength\<close> bytes at \<open>byteOffset\<close> into an
  \<open>ArrayBuffer\<close>; its \<open>buffer\<close> property is the whole \<open>ArrayBuffer\<close>, which may hold more bytes
  than the window shows. \<open>new Uint8Array(len)\<close>, as \<open>decode\<close> creates it, spans a buffer of its
  own. Where the code reads only the elements of an array, the model passes the list of the
  elements; where it reads \<open>.buffer\<close>, it passes the object.
\<close>

record Uint8ArrayObject =
  arrayBuffer :: "8 word list"
  byteOffset :: nat
  byteLength :: nat

definition elements :: "Uint8ArrayObject \<Rightarrow> Uint8Array" where
  "elements a = take (byteLength a) (drop (byteOffset a) (arrayBuffer a))"

definition new_Uint8Array :: "Uint8Array \<Rightarrow> Uint8ArrayObject" where
  "new_Uint8Array bytes = \<lparr>arrayBuffer = bytes, byteOffset = 0, byteLength = length bytes\<rparr>"

definition spans_buffer :: "Uint8ArrayObject \<Rightarrow> bool" where
  "spans_buffer a \<longleftrightarrow> byteOffset a = 0 \<and> byteLength a = length (arrayBuffer a)"

text \<open>
  \<open>new Int16Array(buffer)\<close> on an \<open>ArrayBuffer\<close> raises \<open>RangeError\<close> unless the byte length of
  the buffer is a multiple of two and then reads pairs of bytes in the platform's byte
  order, little-endian on every platform the browsers run on.
  \<open>new Uint8Array(int16.buffer)\<close> is the converse view.
\<close>

fun int16_view :: "Uint8Array \<Rightarrow> Int16Array" where
  "int16_view (lo # hi # rest) = of_nat (unat lo + 256 * unat hi) # int16_view rest"
| "int16_view [lo] = []"
| "int16_view [] = []"

definition new_Int16Array :: "8 word list \<Rightarrow> error + Int16Array" where
  "new_Int16Array buf =
     (if length buf mod 2 \<noteq> 0 then Inl RangeError else Inr (int16_view buf))"

definition uint8_view :: "Int16Array \<Rightarrow> Uint8Array" where
  "uint8_view int16 = concat (map (\<lambda>w. [of_nat (unat w mod 256), of_nat (unat w div 256)]) int16)"

text \<open>An indexed read of a typed array is \<open>undefined\<close> out of range; a store there is ignored.\<close>

definition typed_read :: "'a list \<Rightarrow> nat \<Rightarrow> 'a option" where
  "typed_read xs i = (if i < length xs then Some (xs ! i) else None)"

definition typed_store :: "'a list \<Rightarrow> nat \<Rightarrow> 'a \<Rightarrow> 'a list" where
  "typed_store xs i v = (if i < length xs then xs[i := v] else xs)"

text \<open>\<open>x / 32768.0\<close> for an \<open>Int16Array\<close> element \<open>x\<close>; \<open>undefined / 32768.0\<close> is NaN.\<close>

definition div_32768 :: "16 word option \<Rightarrow> number" where
  "div_32768 x = (case x of None \<Rightarrow> NaN | Some w \<Rightarrow> Num (of_int (sint w) / 32768))"

section \<open>Audio buffers\<close>

text \<open>
  The part of the Web Audio API that \<open>decodeAudioData\<close> uses. An \<open>AudioContext\<close> is modelled
  by the limits of its implementation; \<open>createBuffer\<close> raises \<open>NotSupportedError\<close> when an
  argument is zero or outside the supported range, and otherwise returns a buffer of
  silence. \<open>frames\<close> is the buffer's \<open>length\<close>, \<open>channels ! c\<close> is \<open>getChannelData(c)\<close>.
\<close>

record AudioContext =
  maxChannels :: nat
  minSampleRate :: nat
  maxSampleRate :: nat

record AudioBuffer =
  sampleRate :: nat
  frames :: nat
  channels :: "number list list"

definition duration :: "AudioBuffer \<Rightarrow> rat" where
  "duration b = of_nat (frames b) / of_nat (sampleRate b)"

definition createBuffer :: "AudioContext \<Rightarrow> nat \<Rightarrow> nat \<Rightarrow> nat \<Rightarrow> error + AudioBuffer" where
  "createBuffer ctx numberOfChannels len rate =
     (if numberOfChannels = 0 \<or> maxChannels ctx < numberOfChannels \<or> len = 0
         \<or> rate < minSampleRate ctx \<or> maxSampleRate ctx < rate
      then Inl NotSupportedError
      else Inr \<lparr>sampleRate = rate, frames = len,
                channels = replicate numberOfChannels (replicate len (Num 0))\<rparr>)"

text \<open>
  The inner loop of \<open>decodeAudioData\<close>, \<open>for (let i = 0; i < frameCount; i++)\<close>: the integers
  below the (possibly fractional) \<open>frameCount\<close> are those below its ceiling.
\<close>

definition fill_channel :: "Int16Array \<Rightarrow> nat \<Rightarrow> rat \<Rightarrow> nat \<Rightarrow> number list \<Rightarrow> number list" where
  "fill_channel dataInt16 numChannels frameCount channel channelData =
     fold (\<lambda>i cd. typed_store cd i (div_32768 (typed_read dataInt16 (i * numChannels + channel))))
       [0..<nat \<lceil>frameCount\<rceil>] channelData"

text \<open>
  \<open>decodeAudioData\<close> (App.tsx, lines 35-52). The samples are read from \<open>data.buffer\<close>, the
  whole buffer under \<open>data\<close>, not from the window of \<open>data\<close>. With \<open>numChannels = 0\<close> the
  frame count is not finite and \<open>createBuffer\<close> rejects the channel count whatever the
  length is.
\<close>

definition decodeAudioData :: "Uint8ArrayObject \<Rightarrow> AudioContext \<Rightarrow> nat \<Rightarrow> nat \<Rightarrow> error + AudioBuffer" where
  "decodeAudioData data ctx rate numChannels =
     (case new_Int16Array (arrayBuffer data) of
        Inl e \<Rightarrow> Inl e
      | Inr dataInt16 \<Rightarrow>
          if numChannels = 0 then Inl NotSupportedError
          else
            (let frameCount = of_nat (length dataInt16) / of_nat numChannels in
             case createBuffer ctx numChannels (ToUint32 frameCount) rate of
               Inl e \<Rightarrow> Inl e
             | Inr buffer \<Rightarrow>
                 Inr (fold (\<lambda>channel b.
                        b\<lparr>channels := (channels b)[channel :=
                             fill_channel dataInt16 numChannels frameCount channel
                               (channels b ! channel)]\<rparr>)
                      [0..<numChannels] buffer)))"

section \<open>Capture: float samples to 16-bit PCM\<close>

text \<open>
  The body of \<open>scriptProcessor.onaudioprocess\<close> (App.tsx, lines 673-688): the loop
  \<open>int16[i] = inputData[i] * 32768\<close> over a fresh \<open>Int16Array\<close>, then the bytes of that array
  through \<open>encode\<close>.
\<close>

definition onaudioprocess_int16 :: "number list \<Rightarrow> Int16Array" where
  "onaudioprocess_int16 inputData =
     (let l = length inputData in
      fold (\<lambda>i int16. typed_store int16 i (ToInt16 (times_32768 (inputData ! i)))) [0..<l]
        (replicate l 0))"

definition onaudioprocess_data :: "number list \<Rightarrow> error + jsstring" where
  "onaudioprocess_data inputData = encode (uint8_view (onaudioprocess_int16 inputData))"

text \<open>
  The clamping the specification asks of the conversion, for comparison with what the code
  does.
\<close>

definition spec_clamp_int16 :: "int \<Rightarrow> int" where
  "spec_clamp_int16 v = max (- 32768) (min 32767 v)"

section \<open>Inbound messages\<close>

text \<open>
  The fields of the SDK's \<open>LiveServerMessage\<close> that \<open>processMessage\<close> reads. Every field
  is optional in the SDK's declarations; a missing boolean is as good as \<open>false\<close> where the
  code only tests it.
\<close>

record Blob =
  blobData :: "jsstring option"

record Part =
  inlineData :: "Blob option"

record Content =
  parts :: "Part list option"

record Transcription =
  transcriptionText :: "jsstring option"

record LiveServerContent =
  inputTranscription :: "Transcription option"
  outputTranscription :: "Transcription option"
  turnComplete :: bool
  modelTurn :: "Content option"
  interrupted :: bool

record LiveServerMessage =
  serverContent :: "LiveServerContent option"

text \<open>
  \<open>message.serverContent?.modelTurn?.parts[0]?.inlineData.data\<close>: an optional chain stops
  with \<open>undefined\<close> at a missing \<open>serverContent\<close>, \<open>modelTurn\<close> or first part; \<open>parts[0]\<close> on a
  missing \<open>parts\<close> and \<open>.data\<close> on a missing \<open>inlineData\<close> raise \<open>TypeError\<close>.
\<close>

definition audioData_of :: "LiveServerMessage \<Rightarrow> error + jsstring option" where
  "audioData_of message =
     (case serverContent message of
        None \<Rightarrow> Inr None
      | Some content \<Rightarrow>
          (case modelTurn content of
             None \<Rightarrow> Inr None
           | Some turn \<Rightarrow>
               (case parts turn of
                  None \<Rightarrow> Inl TypeError
                | Some [] \<Rightarrow> Inr None
                | Some (part # _) \<Rightarrow>
                    (case inlineData part of
                       None \<Rightarrow> Inl TypeError
                     | Some blob \<Rightarrow> Inr (blobData blob)))))"

section \<open>The live conversation component\<close>

text \<open>
  \<open>String.prototype.trim\<close> removes ECMAScript white space and line terminators from both
  ends; all of them are single code units.
\<close>

definition js_whitespace :: "16 word \<Rightarrow> bool" where
  "js_whitespace c \<longleftrightarrow>
     c = 0x9 \<or> c = 0xA \<or> c = 0xB \<or> c = 0xC \<or> c = 0xD \<or> c = 0x20 \<or> c = 0xA0
     \<or> c = 0x1680 \<or> (0x2000 \<le> c \<and> c \<le> 0x200A) \<or> c = 0x2028 \<or> c = 0x2029
     \<or> c = 0x202F \<or> c = 0x205F \<or> c = 0x3000 \<or> c = 0xFEFF"

definition js_trim :: "jsstring \<Rightarrow> jsstring" where
  "js_trim s = rev (dropWhile js_whitespace (rev (dropWhile js_whitespace s)))"

text \<open>
  A source node that has been started: its buffer, the time given to \<open>start\<close> and whether
  \<open>stop\<close> has been called on it. A node is named by its position in \<open>nodes\<close>, the list of the
  nodes started so far.
\<close>

record AudioBufferSourceNode =
  buffer :: AudioBuffer
  startedAt :: rat
  stopped :: bool

record Turn =
  user :: jsstring
  model :: jsstring

text \<open>
  The state of \<open>LiveConversationUI\<close>: its React state, its refs, the variables of the effect
  closure, and what it has done to the outside (calls of \<open>connectLive\<close>, of the session's
  \<open>close\<close> and \<open>sendRealtimeInput\<close>, and the labels of its calls of \<open>console.error\<close>).
  \<open>micPending\<close> holds until the promise of \<open>getUserMedia\<close> settles; \<open>capturing\<close> holds once
  the script processor is connected.
\<close>

record LiveConversation =
  isMounted :: bool
  status :: string
  permissionError :: "string option"
  userTranscription :: jsstring
  modelTranscription :: jsstring
  history :: "Turn list"
  currentInputTranscriptionRef :: jsstring
  currentOutputTranscriptionRef :: jsstring
  outputAudioContextRef :: "AudioContext option"
  nextStartTimeRef :: rat
  sourcesRef :: "nat set"
  nodes :: "AudioBufferSourceNode list"
  sessionPromiseRef :: bool
  connectLiveCalls :: nat
  sessionCloseCalls :: nat
  sentRealtimeInput :: "jsstring list"
  micPending :: bool
  capturing :: bool
  consoleErrors :: "string list"

text \<open>\<open>ref += transcription.text\<close>: a missing text appends the text of \<open>undefined\<close>.\<close>

definition append_text :: "jsstring \<Rightarrow> Transcription \<Rightarrow> jsstring" where
  "append_text current t =
     current @ (case transcriptionText t of None \<Rightarrow> js ''undefined'' | Some x \<Rightarrow> x)"

text \<open>The blocks of \<open>processMessage\<close> (App.tsx, lines 614-662), in the order of the source.\<close>

definition handleInputTranscription :: "LiveServerMessage \<Rightarrow> LiveConversation \<Rightarrow> LiveConversation" where
  "handleInputTranscription message s =
     (case Option.bind (serverContent message) inputTranscription of
        None \<Rightarrow> s
      | Some t \<Rightarrow>
          (let current = append_text (currentInputTranscriptionRef s) t in
           s\<lparr>currentInputTranscriptionRef := current, userTranscription := current\<rparr>))"

definition handleOutputTranscription :: "LiveServerMessage \<Rightarrow> LiveConversation \<Rightarrow> LiveConversation" where
  "handleOutputTranscription message s =
     (case Option.bind (serverContent message) outputTranscription of
        None \<Rightarrow> s
      | Some t \<Rightarrow>
          (let current = append_text (currentOutputTranscriptionRef s) t in
           s\<lparr>currentOutputTranscriptionRef := current, modelTranscription := current\<rparr>))"

definition handleTurnComplete :: "LiveServerMessage \<Rightarrow> LiveConversation \<Rightarrow> LiveConversation" where
  "handleTurnComplete message s =
     (if (case serverContent message of None \<Rightarrow> False | Some content \<Rightarrow> turnComplete content)
      then
        (let fullInput = currentInputTranscriptionRef s;
             fullOutput = currentOutputTranscriptionRef s;
             s1 = (if js_trim fullInput \<noteq> [] \<or> js_trim fullOutput \<noteq> []
                   then s\<lparr>history := history s @ [\<lparr>user = fullInput, model = fullOutput\<rparr>]\<rparr>
                   else s)
         in s1\<lparr>currentInputTranscriptionRef := [], currentOutputTranscriptionRef := [],
                userTranscription := [], modelTranscription := []\<rparr>)
      else s)"

text \<open>
  Lines 640-653. The cursor is raised to the clock before the fragment is decoded, so it
  stays raised when \<open>decode\<close> or \<open>decodeAudioData\<close> raises; neither call is inside a
  \<open>try\<close>, and nothing is written to the console. \<open>decodeAudioData\<close> receives the fresh array
  that \<open>decode\<close> made. \<open>start\<close> raises \<open>RangeError\<close> on a negative time. The new source is the
  next position of \<open>nodes\<close>.
\<close>

definition handleAudio :: "rat \<Rightarrow> jsstring option \<Rightarrow> LiveConversation \<Rightarrow> LiveConversation \<times> error option" where
  "handleAudio currentTime audioData s =
     (case (audioData, outputAudioContextRef s) of
        (Some base64, Some ctx) \<Rightarrow>
          if base64 = [] then (s, None)
          else
            (let s1 = s\<lparr>nextStartTimeRef := max (nextStartTimeRef s) currentTime\<rparr> in
             case decode base64 of
               Inl e \<Rightarrow> (s1, Some e)
             | Inr bytes \<Rightarrow>
                 (case decodeAudioData (new_Uint8Array bytes) ctx 24000 1 of
                    Inl e \<Rightarrow> (s1, Some e)
                  | Inr audioBuffer \<Rightarrow>
                      if nextStartTimeRef s1 < 0 then (s1, Some RangeError)
                      else
                        (let source = length (nodes s1) in
                         (s1\<lparr>nodes := nodes s1 @
                                 [\<lparr>buffer = audioBuffer, startedAt = nextStartTimeRef s1,
                                   stopped = False\<rparr>],
                               nextStartTimeRef := nextStartTimeRef s1 + duration audioBuffer,
                               sourcesRef := insert source (sourcesRef s1)\<rparr>,
                          None))))
      | _ \<Rightarrow> (s, None))"

text \<open>Lines 655-661: \<open>stop\<close> on every source of the set, then the set and the cursor are reset.\<close>

definition stop_sources :: "nat set \<Rightarrow> AudioBufferSourceNode list \<Rightarrow> AudioBufferSourceNode list" where
  "stop_sources ids ns =
     map (\<lambda>(i, n). if i \<in> ids then n\<lparr>stopped := True\<rparr> else n) (zip [0..<length ns] ns)"

definition handleInterrupted :: "LiveServerMessage \<Rightarrow> LiveConversation \<Rightarrow> LiveConversation" where
  "handleInterrupted message s =
     (if (case serverContent message of None \<Rightarrow> False | Some content \<Rightarrow> interrupted content)
      then s\<lparr>nodes := stop_sources (sourcesRef s) (nodes s), sourcesRef := {},
              nextStartTimeRef := 0\<rparr>
      else s)"

text \<open>
  \<open>processMessage\<close>: the state it leaves and the exception, if any, that rejects its promise.
  \<open>currentTime\<close> is the output context's clock when the message is handled.
  \<open>handleTranscripts\<close> is the three transcript blocks (lines 617-637) in sequence.
\<close>

definition handleTranscripts :: "LiveServerMessage \<Rightarrow> LiveConversation \<Rightarrow> LiveConversation" where
  "handleTranscripts message s =
     handleTurnComplete message
       (handleOutputTranscription message (handleInputTranscription message s))"

definition processMessage :: "rat \<Rightarrow> LiveServerMessage \<Rightarrow> LiveConversation \<Rightarrow> LiveConversation \<times> error option" where
  "processMessage currentTime message s =
     (if \<not> isMounted s then (s, None)
      else
        (let s3 = handleTranscripts message s
         in case audioData_of message of
              Inl e \<Rightarrow> (s3, Some e)
            | Inr audioData \<Rightarrow>
                (case handleAudio currentTime audioData s3 of
                   (s4, Some e) \<Rightarrow> (s4, Some e)
                 | (s4, None) \<Rightarrow> (handleInterrupted message s4, None))))"

text \<open>Messages handled one after the other; a rejected promise does not stop the next one.\<close>

definition processMessages :: "(rat \<times> LiveServerMessage) list \<Rightarrow> LiveConversation \<Rightarrow> LiveConversation" where
  "processMessages ms s = fold (\<lambda>(t, m) s'. fst (processMessage t m s')) ms s"

text \<open>The \<open>ended\<close> listener of a source.\<close>

definition sourceEnded :: "nat \<Rightarrow> LiveConversation \<Rightarrow> LiveConversation" where
  "sourceEnded source s = s\<lparr>sourcesRef := sourcesRef s - {source}\<rparr>"

subsection \<open>Life cycle\<close>

text \<open>
  The effect of \<open>LiveConversationUI\<close>: on mount the output context is created and \<open>setupLive\<close>
  runs up to \<open>await getUserMedia\<close>.
\<close>

definition mount :: "AudioContext \<Rightarrow> LiveConversation" where
  "mount ctx =
     \<lparr>isMounted = True, status = ''Initializing...'', permissionError = None,
      userTranscription = [], modelTranscription = [], history = [],
      currentInputTranscriptionRef = [], currentOutputTranscriptionRef = [],
      outputAudioContextRef = Some ctx, nextStartTimeRef = 0, sourcesRef = {}, nodes = [],
      sessionPromiseRef = False, connectLiveCalls = 0, sessionCloseCalls = 0,
      sentRealtimeInput = [], micPending = True, capturing = False, consoleErrors = []\<rparr>"

text \<open>
  \<open>setupLive\<close> after the \<open>await\<close> (lines 666-708): \<open>granted\<close> tells whether \<open>getUserMedia\<close>
  resolved. Only the resolved path reaches \<open>connectLive\<close>; the rejected one runs the \<open>catch\<close>
  block. \<open>connectLive\<close> belongs to the service module, which is not among the sources: it
  is represented by the count of its calls and by the callbacks it is given. The platform
  constructors on the resolved path are taken not to raise.
\<close>

definition setupLive_resume :: "bool \<Rightarrow> LiveConversation \<Rightarrow> LiveConversation" where
  "setupLive_resume granted s =
     (if granted then
        (if \<not> isMounted s then s
         else s\<lparr>capturing := True, sessionPromiseRef := True,
                 connectLiveCalls := connectLiveCalls s + 1\<rparr>)
      else
        (let s1 = s\<lparr>consoleErrors := consoleErrors s @ [''Error getting user media:'']\<rparr> in
         if isMounted s1
         then s1\<lparr>status := ''Error'',
                  permissionError := Some ''Microphone access denied. Please enable it in your browser settings and restart the conversation.''\<rparr>
         else s1))"

text \<open>The effect's clean-up with \<open>cleanup\<close> (lines 592-601 and 713-720).\<close>

definition unmount :: "LiveConversation \<Rightarrow> LiveConversation" where
  "unmount s =
     (let s1 = s\<lparr>isMounted := False\<rparr>;
          s2 = (if sessionPromiseRef s1
                then s1\<lparr>sessionCloseCalls := sessionCloseCalls s1 + 1, sessionPromiseRef := False\<rparr>
                else s1)
      in s2\<lparr>outputAudioContextRef := None, capturing := False\<rparr>)"

text \<open>
  What can happen to a mounted component. The callbacks given to \<open>connectLive\<close> and the
  audio handler exist only once they have been registered, and the promise of
  \<open>getUserMedia\<close> settles once.
\<close>

datatype event =
    MicGranted
  | MicDenied
  | OnOpen
  | OnMessage rat LiveServerMessage
  | OnError
  | OnClose
  | AudioProcess "number list"
  | SourceEnded nat
  | Unmount

fun step :: "event \<Rightarrow> LiveConversation \<Rightarrow> LiveConversation" where
  "step MicGranted s =
     (if micPending s then setupLive_resume True (s\<lparr>micPending := False\<rparr>) else s)"
| "step MicDenied s =
     (if micPending s then setupLive_resume False (s\<lparr>micPending := False\<rparr>) else s)"
| "step OnOpen s =
     (if 0 < connectLiveCalls s \<and> isMounted s
      then s\<lparr>status := ''Connected. Start speaking...''\<rparr> else s)"
| "step (OnMessage t m) s =
     (if 0 < connectLiveCalls s then fst (processMessage t m s) else s)"
| "step OnError s =
     (if 0 < connectLiveCalls s
      then (let s1 = s\<lparr>consoleErrors := consoleErrors s @ [''Live connection error:'']\<rparr> in
            if isMounted s1 then s1\<lparr>status := ''Error occurred. Please try again.''\<rparr> else s1)
      else s)"
| "step OnClose s =
     (if 0 < connectLiveCalls s \<and> isMounted s
      then s\<lparr>status := ''Connection closed.''\<rparr> else s)"
| "step (AudioProcess inputData) s =
     (if capturing s \<and> sessionPromiseRef s \<and> isMounted s
      then (case onaudioprocess_data inputData of
              Inl e \<Rightarrow> s
            | Inr d \<Rightarrow> s\<lparr>sentRealtimeInput := sentRealtimeInput s @ [d]\<rparr>)
      else s)"
| "step (SourceEnded source) s = sourceEnded source s"
| "step Unmount s = unmount s"

definition run :: "event list \<Rightarrow> LiveConversation \<Rightarrow> LiveConversation" where
  "run es s = fold step es s"

subsection \<open>The specification's vocabulary\<close>

text \<open>
  The specification speaks of tagged inbound events and of a conversation status. An event
  is a message with one field set; the status is read off the component's \<open>status\<close> and
  \<open>permissionError\<close> as the component renders them (line 726): the remediation panel is
  shown when \<open>permissionError\<close> is a non-empty string, the status line otherwise.
\<close>

datatype InboundEvent =
    InputTranscriptionDelta jsstring
  | OutputTranscriptionDelta jsstring
  | AudioFragment jsstring
  | TurnComplete
  | Interrupted

definition emptyContent :: LiveServerContent where
  "emptyContent =
     \<lparr>inputTranscription = None, outputTranscription = None, turnComplete = False,
      modelTurn = None, interrupted = False\<rparr>"

fun message_of :: "InboundEvent \<Rightarrow> LiveServerMessage" where
  "message_of (InputTranscriptionDelta t) =
     \<lparr>serverContent = Some (emptyContent\<lparr>inputTranscription := Some \<lparr>transcriptionText = Some t\<rparr>\<rparr>)\<rparr>"
| "message_of (OutputTranscriptionDelta t) =
     \<lparr>serverContent = Some (emptyContent\<lparr>outputTranscription := Some \<lparr>transcriptionText = Some t\<rparr>\<rparr>)\<rparr>"
| "message_of (AudioFragment a) =
     \<lparr>serverContent = Some (emptyContent\<lparr>modelTurn :=
        Some \<lparr>parts = Some [\<lparr>inlineData = Some \<lparr>blobData = Some a\<rparr>\<rparr>]\<rparr>\<rparr>)\<rparr>"
| "message_of TurnComplete = \<lparr>serverContent = Some (emptyContent\<lparr>turnComplete := True\<rparr>)\<rparr>"
| "message_of Interrupted = \<lparr>serverContent = Some (emptyContent\<lparr>interrupted := True\<rparr>)\<rparr>"

fun is_delta :: "InboundEvent \<Rightarrow> bool" where
  "is_delta (InputTranscriptionDelta t) = True"
| "is_delta (OutputTranscriptionDelta t) = True"
| "is_delta _ = False"

fun user_text :: "InboundEvent \<Rightarrow> jsstring" where
  "user_text (InputTranscriptionDelta t) = t"
| "user_text _ = []"

fun model_text :: "InboundEvent \<Rightarrow> jsstring" where
  "model_text (OutputTranscriptionDelta t) = t"
| "model_text _ = []"

datatype ConversationStatus = Initializing | Active | PermissionDenied | Error | Closed

definition spec_status :: "LiveConversation \<Rightarrow> ConversationStatus" where
  "spec_status s =
     (if (case permissionError s of None \<Rightarrow> False | Some message \<Rightarrow> message \<noteq> [])
      then PermissionDenied
      else if status s = ''Initializing...'' then Initializing
      else if status s = ''Connected. Start speaking...'' then Active
      else if status s = ''Connection closed.'' then Closed
      else Error)"

text \<open>A message without its \<open>interrupted\<close> flag, and without its \<open>modelTurn\<close>.\<close>

definition without_interrupted :: "LiveServerMessage \<Rightarrow> LiveServerMessage" where
  "without_interrupted message =
     message\<lparr>serverContent := map_option (\<lambda>c. c\<lparr>interrupted := False\<rparr>) (serverContent message)\<rparr>"

definition without_modelTurn :: "LiveServerMessage \<Rightarrow> LiveServerMessage" where
  "without_modelTurn message =
     message\<lparr>serverContent := map_option (\<lambda>c. c\<lparr>modelTurn := None\<rparr>) (serverContent message)\<rparr>"

definition is_interrupted :: "LiveServerMessage \<Rightarrow> bool" where
  "is_interrupted message =
     (case serverContent message of None \<Rightarrow> False | Some content \<Rightarrow> interrupted content)"

text \<open>An audio context with the limits every implementation of the Web Audio API must support.\<close>

definition standardContext :: AudioContext where
  "standardContext = \<lparr>maxChannels = 32, minSampleRate = 8000, maxSampleRate = 96000\<rparr>"

section \<open>The base64 transport encoding round-trips\<close>

lemma unat_b64_char:
  "n < 64 \<Longrightarrow> unat (b64_char n) =
     (if n < 26 then 65 + n else if n < 52 then 71 + n else if n < 62 then n - 4
      else if n = 62 then 43 else 47)"
  unfolding b64_char_def
  by (simp add: unat_of_nat del: of_nat_add of_nat_diff)

lemma b64_index_char: "n < 64 \<Longrightarrow> b64_index (b64_char n) = Some n"
  unfolding b64_index_def Let_def by (auto simp: unat_b64_char)

lemma b64_index_pad: "b64_index 61 = None"
  by (simp add: b64_index_def)

lemma b64_index_whitespace: "ascii_whitespace c \<Longrightarrow> b64_index c = None"
  by (auto simp: b64_index_def ascii_whitespace_def)

lemma b64_char_not_pad: "n < 64 \<Longrightarrow> b64_char n \<noteq> 61"
  using b64_index_char [of n] b64_index_pad by auto

lemma b64_char_not_whitespace: "n < 64 \<Longrightarrow> \<not> ascii_whitespace (b64_char n)"
  using b64_index_char [of n] b64_index_whitespace [of "b64_char n"] by auto

lemma pad_not_whitespace: "\<not> ascii_whitespace 61"
  by (simp add: ascii_whitespace_def)

lemma sextets_join:
  fixes n :: nat
  shows "(n div 262144) * 262144 + (n div 4096 mod 64) * 4096 + (n div 64 mod 64) * 64 + n mod 64 = n"
proof -
  define q1 where "q1 = n div 64"
  define q2 where "q2 = q1 div 64"
  define q3 where "q3 = q2 div 64"
  have d2: "n div 4096 = q2"
    unfolding q2_def q1_def using div_mult2_eq [of n 64 64] by simp
  have d3: "n div 262144 = q3"
    unfolding q3_def q2_def q1_def
    using div_mult2_eq [of n 64 64] div_mult2_eq [of n 4096 64] by simp
  have a: "n = q1 * 64 + n mod 64" unfolding q1_def by simp
  have b: "q1 = q2 * 64 + q1 mod 64" unfolding q2_def by simp
  have c: "q2 = q3 * 64 + q2 mod 64" unfolding q3_def by simp
  have "q3 * 262144 + (q2 mod 64) * 4096 + (q1 mod 64) * 64 + n mod 64 = n"
    using a b c by linarith
  then show ?thesis unfolding d2 d3 q1_def [symmetric] .
qed

lemma bytes_split:
  fixes a b c :: nat
  assumes "a < 256" "b < 256" "c < 256"
  shows "(a * 65536 + b * 256 + c) div 65536 = a"
    and "(a * 65536 + b * 256 + c) div 256 mod 256 = b"
    and "(a * 65536 + b * 256 + c) mod 256 = c"
proof -
  define m where "m = a * 256 + b"
  have e: "a * 65536 + b * 256 + c = m * 256 + c" unfolding m_def by simp
  show "(a * 65536 + b * 256 + c) div 65536 = a" using assms by simp
  have f: "(m * 256 + c) div 256 = m" using assms by simp
  have g: "m mod 256 = b" unfolding m_def using assms by simp
  show "(a * 65536 + b * 256 + c) div 256 mod 256 = b" unfolding e f g ..
  show "(a * 65536 + b * 256 + c) mod 256 = c" unfolding e using assms by simp
qed

lemma unat_byte: "unat (a :: 8 word) < 256"
  using unsigned_less [of a] by simp

lemma triple_bound:
  "unat (a :: 8 word) * 65536 + unat (b :: 8 word) * 256 + unat (c :: 8 word) < 16777216"
  using unat_byte [of a] unat_byte [of b] unat_byte [of c] by linarith

lemma sextets_of_bound: "\<forall>s \<in> set (sextets_of bs). s < 64"
proof (induction bs rule: sextets_of.induct)
  case (1 a b c rest)
  have "(unat a * 65536 + unat b * 256 + unat c) div 262144 < 64"
    using triple_bound [of a b c] by simp
  with 1 show ?case by (simp add: Let_def)
next
  case (2 a b)
  have "(unat a * 65536 + unat b * 256) div 262144 < 64"
    using triple_bound [of a b 0] by simp
  then show ?case by (simp add: Let_def)
next
  case (3 a)
  have "(unat a * 65536) div 262144 < 64"
    using triple_bound [of a 0 0] by simp
  then show ?case by (simp add: Let_def)
next
  case 4
  show ?case by simp
qed

lemma base64_encode_decomp:
  "base64_encode bs = map b64_char (sextets_of bs) @ padding_of bs"
  by (induction bs rule: base64_encode.induct) (simp_all add: Let_def)

lemma length_base64_encode: "length (base64_encode bs) mod 4 = 0"
  by (induction bs rule: base64_encode.induct) (simp_all add: Let_def)

lemma length_sextets_of: "length (sextets_of bs) mod 4 \<noteq> 1"
  by (induction bs rule: sextets_of.induct) (simp_all add: Let_def)

lemma padding_of_cases: "padding_of bs = [] \<or> padding_of bs = [61] \<or> padding_of bs = [61, 61]"
  by (induction bs rule: padding_of.induct) simp_all

lemma those_index_chars:
  "\<forall>s \<in> set ss. s < 64 \<Longrightarrow> those (map b64_index (map b64_char ss)) = Some ss"
  by (induction ss) (simp_all add: b64_index_char)

lemma filter_whitespace_encode:
  "filter (\<lambda>c. \<not> ascii_whitespace c) (base64_encode bs) = base64_encode bs"
proof -
  have "\<forall>c \<in> set (map b64_char (sextets_of bs)). \<not> ascii_whitespace c"
    using sextets_of_bound [of bs] by (auto simp: b64_char_not_whitespace)
  moreover have "\<forall>c \<in> set (padding_of bs). \<not> ascii_whitespace c"
    using padding_of_cases [of bs] by (auto simp: pad_not_whitespace)
  ultimately show ?thesis
    unfolding base64_encode_decomp by (simp add: filter_id_conv)
qed

lemma strip_padding_append:
  assumes len: "length (x @ p) mod 4 = 0"
    and x: "\<forall>c \<in> set x. c \<noteq> 61"
    and p: "p = [] \<or> p = [61] \<or> p = [61, 61]"
  shows "strip_padding (x @ p) = x"
proof -
  consider "p = []" | "p = [61]" | "p = [61, 61]" using p by blast
  then show ?thesis
  proof cases
    case 1
    with len x show ?thesis
      by (cases x rule: rev_cases) (simp_all add: strip_padding_def)
  next
    case 2
    with len have "x \<noteq> []" by auto
    then obtain y c where "x = y @ [c]" by (cases x rule: rev_cases) auto
    with 2 len x show ?thesis
      by (simp add: strip_padding_def butlast_append)
  next
    case 3
    with len show ?thesis
      by (simp add: strip_padding_def butlast_append)
  qed
qed

lemma strip_padding_encode:
  "strip_padding (base64_encode bs) = map b64_char (sextets_of bs)"
proof -
  have x: "\<forall>c \<in> set (map b64_char (sextets_of bs)). c \<noteq> 61"
    using sextets_of_bound [of bs] by (auto simp: b64_char_not_pad)
  have len: "length (map b64_char (sextets_of bs) @ padding_of bs) mod 4 = 0"
    using length_base64_encode [of bs] unfolding base64_encode_decomp .
  show ?thesis
    unfolding base64_encode_decomp
    by (rule strip_padding_append [OF len x padding_of_cases])
qed

lemma two_bytes_join:
  fixes a b :: nat
  assumes "a < 256" "b < 256"
  defines "n \<equiv> a * 65536 + b * 256"
  defines "m \<equiv> ((n div 262144) * 4096 + (n div 4096 mod 64) * 64 + n div 64 mod 64) div 4"
  shows "m div 256 = a" and "m mod 256 = b"
proof -
  have q: "n div 64 = a * 1024 + b * 4" unfolding n_def by simp
  have "n div 64 = (n div 64 div 64) * 64 + n div 64 mod 64" by simp
  moreover have "n div 64 div 64 = n div 4096"
    using div_mult2_eq [of n 64 64] by simp
  moreover have "n div 4096 = (n div 4096 div 64) * 64 + n div 4096 mod 64" by simp
  moreover have "n div 4096 div 64 = n div 262144"
    using div_mult2_eq [of n 4096 64] by simp
  ultimately have "(n div 262144) * 4096 + (n div 4096 mod 64) * 64 + n div 64 mod 64
                     = n div 64"
    by linarith
  then have m: "m = a * 256 + b" unfolding m_def q by simp
  show "m div 256 = a" unfolding m using assms by simp
  show "m mod 256 = b" unfolding m using assms by simp
qed

lemma one_byte_join:
  fixes a :: nat
  assumes "a < 256"
  defines "n \<equiv> a * 65536"
  shows "((n div 262144) * 64 + n div 4096 mod 64) div 16 = a"
proof -
  have q: "n div 4096 = a * 16" unfolding n_def by simp
  have "n div 4096 = (n div 4096 div 64) * 64 + n div 4096 mod 64" by simp
  moreover have "n div 4096 div 64 = n div 262144"
    using div_mult2_eq [of n 4096 64] by simp
  ultimately have "(n div 262144) * 64 + n div 4096 mod 64 = n div 4096" by linarith
  then show ?thesis unfolding q by simp
qed

lemma decode_sextets_of: "decode_sextets (sextets_of bs) = bs"
proof (induction bs rule: sextets_of.induct)
  case (1 a b c rest)
  define n where "n = unat a * 65536 + unat b * 256 + unat c"
  have j: "(n div 262144) * 262144 + (n div 4096 mod 64) * 4096 + (n div 64 mod 64) * 64
             + n mod 64 = n"
    by (rule sextets_join)
  have s: "n div 65536 = unat a" "n div 256 mod 256 = unat b" "n mod 256 = unat c"
    unfolding n_def using bytes_split [OF unat_byte [of a] unat_byte [of b] unat_byte [of c]]
    by simp_all
  have "decode_sextets (sextets_of (a # b # c # rest))
          = [of_nat (n div 65536), of_nat (n div 256 mod 256), of_nat (n mod 256)]
              @ decode_sextets (sextets_of rest)"
    unfolding sextets_of.simps Let_def n_def [symmetric] append_Cons append_Nil
      decode_sextets.simps j ..
  then show ?case unfolding s using 1 by simp
next
  case (2 a b)
  show ?case
    unfolding sextets_of.simps decode_sextets.simps Let_def
      two_bytes_join [OF unat_byte [of a] unat_byte [of b]]
    by simp
next
  case (3 a)
  show ?case
    unfolding sextets_of.simps decode_sextets.simps Let_def
      one_byte_join [OF unat_byte [of a]]
    by simp
next
  case 4
  show ?case by simp
qed

lemma forgiving_base64_decode_encode:
  "forgiving_base64_decode (base64_encode bs) = Some bs"
  unfolding forgiving_base64_decode_def Let_def filter_whitespace_encode strip_padding_encode
    those_index_chars [OF sextets_of_bound]
  using length_sextets_of [of bs]
  by (simp add: decode_sextets_of)

lemma fold_snoc_map: "fold (\<lambda>b acc. acc @ [f b]) bs acc = acc @ map f bs"
  by (induction bs arbitrary: acc) simp_all

lemma fold_store_prefix:
  "k \<le> length xs \<Longrightarrow>
     fold (\<lambda>i ys. ys[i := f i]) [0..<k] xs = map f [0..<k] @ drop k xs"
proof (induction k)
  case 0
  show ?case by simp
next
  case (Suc k)
  then have k: "k < length xs" by simp
  have "(map f [0..<k] @ drop k xs)[k := f k] = map f [0..<k] @ (drop k xs)[0 := f k]"
    by (simp add: list_update_append)
  also have "(drop k xs)[0 := f k] = f k # drop (Suc k) xs"
    using k by (simp add: Cons_nth_drop_Suc [symmetric])
  finally show ?case using Suc by simp
qed

lemma fold_store_all:
  "length xs = n \<Longrightarrow> fold (\<lambda>i ys. ys[i := f i]) [0..<n] xs = map f [0..<n]"
  using fold_store_prefix [of n xs f] by simp

lemma ucast_byte_roundtrip: "ucast (ucast (b :: 8 word) :: 16 word) = b"
  by (simp add: ucast_up_ucast_id is_up)

lemma ucast_byte_le: "\<not> 255 < (ucast (b :: 8 word) :: 16 word)"
proof -
  have "unat (ucast b :: 16 word) = unat b"
    by (simp add: unsigned_ucast_eq take_bit_nat_eq_self unat_byte [of b, simplified] less_trans [OF unat_byte])
  then have "unat (ucast b :: 16 word) < 256" using unat_byte [of b] by simp
  then show ?thesis by (simp add: word_less_nat_alt)
qed

lemma encode_eq: "encode bytes = Inr (base64_encode bytes)"
  unfolding encode_def btoa_def fold_snoc_map
  by (simp add: ucast_byte_le ucast_byte_roundtrip o_def)

lemma decode_eq:
  "decode s = (case forgiving_base64_decode s of
                 None \<Rightarrow> Inl InvalidCharacterError | Some bytes \<Rightarrow> Inr bytes)"
proof (cases "forgiving_base64_decode s")
  case None
  then show ?thesis by (simp add: decode_def atob_def)
next
  case (Some bytes)
  have "map (\<lambda>i. (ucast (map ucast bytes ! i :: 16 word) :: 8 word)) [0..<length bytes] = bytes"
    by (rule nth_equalityI) (simp_all add: ucast_byte_roundtrip)
  with Some show ?thesis
    by (simp add: decode_def atob_def Let_def fold_store_all)
qed

text \<open>
  C4. For every byte buffer \<open>b\<close>, of any length, \<open>encode b\<close> returns a string and \<open>decode\<close> of
  that string returns \<open>b\<close>: the base64 transport encoding round-trips exactly.
\<close>

theorem decode_encode_roundtrip:
  "\<exists>s. encode b = Inr s \<and> decode s = Inr b"
  by (simp add: encode_eq decode_eq forgiving_base64_decode_encode)

theorem decode_encode_roundtrip_witness:
  "encode [72, 105, 33, 0] = Inr (js ''SGkhAA=='') \<and> decode (js ''SGkhAA=='') = Inr [72, 105, 33, 0]"
proof -
  have e: "encode [72, 105, 33, 0] = Inr (js ''SGkhAA=='')"
    by (simp add: encode_eq js_def b64_char_def)
  show ?thesis using decode_encode_roundtrip [of "[72, 105, 33, 0]"] unfolding e by simp
qed

section \<open>Capture: the conversion wraps\<close>

lemma typed_store_eq: "typed_store xs i v = xs[i := v]"
  by (simp add: typed_store_def list_update_beyond)

lemma fold_typed_store_all:
  "length xs = n \<Longrightarrow> fold (\<lambda>i ys. typed_store ys i (f i)) [0..<n] xs = map f [0..<n]"
  unfolding typed_store_eq by (rule fold_store_all)

lemma onaudioprocess_int16_map:
  "onaudioprocess_int16 inputData = map (\<lambda>v. ToInt16 (times_32768 v)) inputData"
proof -
  have "map (\<lambda>i. ToInt16 (times_32768 (inputData ! i))) [0..<length inputData]
          = map (\<lambda>v. ToInt16 (times_32768 v)) inputData"
    by (rule nth_equalityI) simp_all
  then show ?thesis
    by (simp add: onaudioprocess_int16_def Let_def fold_typed_store_all)
qed

lemma sint_word_of_int_16:
  "sint (word_of_int k :: 16 word) = (k + 32768) mod 65536 - 32768"
  using int_word_sint [of k, where 'a = 16] by simp

lemma sint_ToInt16:
  "sint (ToInt16 (times_32768 (Num x))) = (js_truncate (x * 32768) + 32768) mod 65536 - 32768"
  by (simp add: ToInt16_def times_32768_def sint_word_of_int_16)

text \<open>
  C5, as the code has it. The capture loop stores, for a finite sample \<open>x\<close>, the integer part
  of \<open>x * 32768\<close> reduced modulo \<open>2 ^ 16\<close> into the range of a signed 16-bit integer: it wraps.
  Where the integer part already lies in \<open>[-32768, 32767]\<close>, in particular for
  \<open>-1 \<le> x < 1\<close>, the stored value is the one clamping would give.
\<close>

theorem onaudioprocess_wraps:
  assumes "i < length inputData" and "inputData ! i = Num x"
  shows "length (onaudioprocess_int16 inputData) = length inputData
    \<and> sint (onaudioprocess_int16 inputData ! i)
         = (js_truncate (x * 32768) + 32768) mod 65536 - 32768
    \<and> (- 32768 \<le> js_truncate (x * 32768) \<and> js_truncate (x * 32768) \<le> 32767
         \<longrightarrow> sint (onaudioprocess_int16 inputData ! i) = spec_clamp_int16 (js_truncate (x * 32768)))
    \<and> (- 1 \<le> x \<and> x < 1
         \<longrightarrow> - 32768 \<le> js_truncate (x * 32768) \<and> js_truncate (x * 32768) \<le> 32767)"
proof -
  let ?t = "js_truncate (x * 32768)"
  have n: "onaudioprocess_int16 inputData ! i = ToInt16 (times_32768 (Num x))"
    using assms by (simp add: onaudioprocess_int16_map)
  have w: "sint (onaudioprocess_int16 inputData ! i) = (?t + 32768) mod 65536 - 32768"
    unfolding n by (rule sint_ToInt16)
  have c: "sint (onaudioprocess_int16 inputData ! i) = spec_clamp_int16 ?t"
    if "- 32768 \<le> ?t" "?t \<le> 32767"
    unfolding w spec_clamp_int16_def using that by simp
  have r: "- 32768 \<le> ?t \<and> ?t \<le> 32767" if "- 1 \<le> x" "x < 1"
  proof -
    have "- 32768 \<le> x * 32768" "x * 32768 < 32768" using that by simp_all
    then show ?thesis
      unfolding js_truncate_def
      by (auto simp: le_floor_iff floor_le_iff ceiling_le_iff le_ceiling_iff)
  qed
  show ?thesis using w c r by (simp add: onaudioprocess_int16_map)
qed

theorem onaudioprocess_wraps_witness:
  "sint (onaudioprocess_int16 [Num (- 1), Num (3 / 4)] ! 1) = 24576
     \<and> spec_clamp_int16 (js_truncate (3 / 4 * 32768)) = 24576"
proof -
  have t: "js_truncate (3 / 4 * 32768) = 24576" by (simp add: js_truncate_def)
  show ?thesis
    using onaudioprocess_wraps [of 1 "[Num (- 1), Num (3 / 4)]" "3 / 4"]
    unfolding t by (simp add: spec_clamp_int16_def)
qed

text \<open>
  As the specification states it, the property fails: the sample \<open>1.0\<close> scales to 32768, which the store wraps to
  -32768, where clamping gives 32767.
\<close>

theorem onaudioprocess_clamps_counterexample:
  "sint (onaudioprocess_int16 [Num 1] ! 0) = - 32768
     \<and> spec_clamp_int16 (js_truncate (1 * 32768)) = 32767"
  by (simp add: onaudioprocess_int16_map ToInt16_def times_32768_def js_truncate_def
      spec_clamp_int16_def)

section \<open>Decoding PCM bytes into an audio buffer\<close>

lemma length_int16_view: "length (int16_view data) = length data div 2"
  by (induction data rule: int16_view.induct) simp_all

lemma nth_int16_view:
  "k < length data div 2 \<Longrightarrow>
     int16_view data ! k = of_nat (unat (data ! (2 * k)) + 256 * unat (data ! (2 * k + 1)))"
proof (induction data arbitrary: k rule: int16_view.induct)
  case (1 lo hi rest)
  then show ?case by (cases k) simp_all
qed simp_all

lemma sint_le_pair:
  fixes lo hi :: "8 word"
  defines "v \<equiv> int (unat lo) + 256 * int (unat hi)"
  shows "sint (of_nat (unat lo + 256 * unat hi) :: 16 word) = (if v < 32768 then v else v - 65536)"
proof -
  have b: "0 \<le> v" "v < 65536"
    using unat_byte [of lo] unat_byte [of hi] unfolding v_def by linarith+
  have w: "(of_nat (unat lo + 256 * unat hi) :: 16 word) = word_of_int v"
    unfolding v_def by simp
  have s: "sint (word_of_int v :: 16 word) = (v + 32768) mod 65536 - 32768"
    by (rule sint_word_of_int_16)
  show ?thesis
  proof (cases "v < 32768")
    case True
    then have "(v + 32768) mod 65536 = v + 32768"
      using b by (intro mod_pos_pos_trivial) linarith+
    then show ?thesis unfolding w s using True by simp
  next
    case False
    have "v + 32768 = (v - 32768) + 65536" by linarith
    then have "(v + 32768) mod 65536 = ((v - 32768) + 65536) mod 65536" by (rule arg_cong)
    also have "\<dots> = (v - 32768) mod 65536" by (simp only: mod_add_self2)
    also have "\<dots> = v - 32768"
      using b False by (intro mod_pos_pos_trivial) linarith+
    finally show ?thesis unfolding w s using False by simp
  qed
qed

lemma fold_update_prefix:
  "k \<le> length xs \<Longrightarrow>
     fold (\<lambda>i ys. ys[i := g i (ys ! i)]) [0..<k] xs = map (\<lambda>i. g i (xs ! i)) [0..<k] @ drop k xs"
proof (induction k)
  case 0
  show ?case by simp
next
  case (Suc k)
  then have k: "k < length xs" by simp
  let ?ys = "map (\<lambda>i. g i (xs ! i)) [0..<k] @ drop k xs"
  have n: "?ys ! k = xs ! k" using k by (simp add: nth_append)
  have "?ys[k := g k (xs ! k)] = map (\<lambda>i. g i (xs ! i)) [0..<k] @ (drop k xs)[0 := g k (xs ! k)]"
    by (simp add: list_update_append)
  also have "(drop k xs)[0 := g k (xs ! k)] = g k (xs ! k) # drop (Suc k) xs"
    using k by (simp add: Cons_nth_drop_Suc [symmetric])
  finally show ?case using Suc n by simp
qed

lemma fold_channels:
  "fold (\<lambda>c b. b\<lparr>channels := h c (channels b)\<rparr>) cs (b :: AudioBuffer)
     = b\<lparr>channels := fold h cs (channels b)\<rparr>"
  by (induction cs arbitrary: b) simp_all

lemma fill_channel_integral:
  "length cd = F \<Longrightarrow>
     fill_channel d n (of_nat F) c cd = map (\<lambda>i. div_32768 (typed_read d (i * n + c))) [0..<F]"
  by (simp add: fill_channel_def fold_typed_store_all)

lemma ToUint32_of_nat: "F < 2 ^ 32 \<Longrightarrow> ToUint32 (of_nat F) = F"
proof -
  assume "F < 2 ^ 32"
  then have "int F < 2 ^ 32" by (metis of_nat_less_numeral_power_cancel_iff)
  then have "int F mod 2 ^ 32 = int F" by (intro mod_pos_pos_trivial) simp_all
  then show ?thesis by (simp add: ToUint32_def)
qed

lemma index_bound:
  fixes i n c F :: nat
  assumes "i < F" "c < n"
  shows "i * n + c < n * F"
proof -
  have "i * n + c < i * n + n" using assms by simp
  also have "\<dots> = (Suc i) * n" by simp
  also have "\<dots> \<le> F * n" using assms by (intro mult_le_mono1) simp
  finally show ?thesis by (simp add: mult.commute)
qed

lemma decodeAudioData_wellformed:
  assumes n: "0 < n" "n \<le> maxChannels ctx"
    and r: "minSampleRate ctx \<le> rate" "rate \<le> maxSampleRate ctx"
    and len: "length (arrayBuffer data) = 2 * (n * F)"
    and F: "0 < F" "F < 2 ^ 32"
  shows "decodeAudioData data ctx rate n =
    Inr \<lparr>sampleRate = rate, frames = F,
         channels = map (\<lambda>c. map (\<lambda>i. div_32768 (Some (int16_view (arrayBuffer data) ! (i * n + c))))
                                 [0..<F])
                      [0..<n]\<rparr>"
proof -
  let ?d = "int16_view (arrayBuffer data)"
  have ld: "length ?d = n * F" using len by (simp add: length_int16_view)
  have i16: "new_Int16Array (arrayBuffer data) = Inr ?d"
    using len by (simp add: new_Int16Array_def)
  have fc: "(of_nat (length ?d) / of_nat n :: rat) = of_nat F"
    unfolding ld using n by simp
  have cb: "createBuffer ctx n F rate
              = Inr \<lparr>sampleRate = rate, frames = F, channels = replicate n (replicate F (Num 0))\<rparr>"
    using n r F by (simp add: createBuffer_def)
  have inner: "fill_channel ?d n (of_nat F) c (replicate n (replicate F (Num 0)) ! c)
                 = map (\<lambda>i. div_32768 (Some (?d ! (i * n + c)))) [0..<F]" if "c < n" for c
  proof -
    have "fill_channel ?d n (of_nat F) c (replicate F (Num 0))
            = map (\<lambda>i. div_32768 (typed_read ?d (i * n + c))) [0..<F]"
      by (rule fill_channel_integral) simp
    also have "\<dots> = map (\<lambda>i. div_32768 (Some (?d ! (i * n + c)))) [0..<F]"
      using that by (simp add: typed_read_def ld index_bound)
    finally show ?thesis using that by simp
  qed
  have outer: "fold (\<lambda>c ys. ys[c := fill_channel ?d n (of_nat F) c (ys ! c)]) [0..<n]
                 (replicate n (replicate F (Num 0)))
               = map (\<lambda>c. map (\<lambda>i. div_32768 (Some (?d ! (i * n + c)))) [0..<F]) [0..<n]"
    using fold_update_prefix [of n "replicate n (replicate F (Num 0))"
        "\<lambda>c. fill_channel ?d n (of_nat F) c"] inner
    by simp
  show ?thesis
    unfolding decodeAudioData_def i16 sum.case Let_def fc ToUint32_of_nat [OF F(2)] cb
    using n fold_channels [of "\<lambda>c ys. ys[c := fill_channel ?d n (of_nat F) c (ys ! c)]"]
    by (simp add: outer)
qed

lemma decodeAudioData_odd:
  "length (arrayBuffer data) mod 2 \<noteq> 0 \<Longrightarrow> decodeAudioData data ctx rate n = Inl RangeError"
  by (simp add: decodeAudioData_def new_Int16Array_def)

lemma decodeAudioData_even:
  "length (arrayBuffer data) mod 2 = 0 \<Longrightarrow> decodeAudioData data ctx rate n \<noteq> Inl RangeError"
  by (simp add: decodeAudioData_def new_Int16Array_def createBuffer_def Let_def)

lemma decodeAudioData_empty:
  "arrayBuffer data = [] \<Longrightarrow> decodeAudioData data ctx rate n = Inl NotSupportedError"
  by (simp add: decodeAudioData_def new_Int16Array_def createBuffer_def ToUint32_def)

lemma spans_buffer_elements: "spans_buffer data \<Longrightarrow> elements data = arrayBuffer data"
  by (simp add: spans_buffer_def elements_def)

lemma spans_buffer_new: "spans_buffer (new_Uint8Array bytes)"
  by (simp add: spans_buffer_def new_Uint8Array_def)

lemma arrayBuffer_new: "arrayBuffer (new_Uint8Array bytes) = bytes"
  by (simp add: new_Uint8Array_def)

lemma sample_value:
  fixes data :: Uint8Array
  assumes "k < length data div 2"
  defines "v \<equiv> int (unat (data ! (2 * k))) + 256 * int (unat (data ! (2 * k + 1)))"
  shows "div_32768 (Some (int16_view data ! k))
           = Num (of_int (if v < 32768 then v else v - 65536) / 32768)"
  unfolding div_32768_def option.case nth_int16_view [OF assms(1)] sint_le_pair v_def ..

lemma sample_range:
  fixes v :: int
  assumes "0 \<le> v" "v < 65536"
  defines "q \<equiv> (of_int (if v < 32768 then v else v - 65536) / 32768 :: rat)"
  shows "- 1 \<le> q \<and> q < 1"
proof -
  let ?s = "if v < 32768 then v else v - 65536"
  have "- 32768 \<le> ?s" "?s < 32768" using assms(1,2) by auto
  then have "(- 32768 :: rat) \<le> of_int ?s" "(of_int ?s :: rat) < 32768"
    by (metis of_int_le_iff of_int_numeral of_int_minus, metis of_int_less_iff of_int_numeral)
  then show ?thesis unfolding q_def by (simp add: divide_simps)
qed

text \<open>
  C6, as the code has it. \<open>decodeAudioData\<close> reads the whole buffer under its input. It
  raises \<open>RangeError\<close> exactly when the byte length of that buffer is odd; for an array that
  spans its buffer, as the one \<open>decode\<close> returns does, and one channel, as the program calls
  it, these are the byte lengths that are not a multiple of \<open>channels * 2\<close>. An empty buffer
  is rejected by \<open>createBuffer\<close>. For an array that spans its buffer, of a non-empty length
  that is a multiple of \<open>channels * 2\<close> with fewer than \<open>2 ^ 32\<close> frames, and a channel count
  and a sample rate that the context supports, it returns a buffer of
  \<open>length / (channels * 2)\<close> frames in which frame \<open>i\<close> of channel \<open>c\<close> is the little-endian
  signed 16-bit sample number \<open>i * channels + c\<close> divided by 32768, a value in \<open>[-1, 1)\<close>.
\<close>

theorem decodeAudioData_contract:
  "(decodeAudioData data ctx rate numChannels = Inl RangeError
      \<longleftrightarrow> length (arrayBuffer data) mod 2 \<noteq> 0)
   \<and> (numChannels = 1 \<and> spans_buffer data \<and> byteLength data mod (numChannels * 2) \<noteq> 0
        \<longrightarrow> decodeAudioData data ctx rate numChannels = Inl RangeError)
   \<and> (arrayBuffer data = [] \<longrightarrow> decodeAudioData data ctx rate numChannels = Inl NotSupportedError)
   \<and> (0 < numChannels \<and> numChannels \<le> maxChannels ctx
        \<and> minSampleRate ctx \<le> rate \<and> rate \<le> maxSampleRate ctx
        \<and> spans_buffer data \<and> byteLength data \<noteq> 0
        \<and> byteLength data mod (numChannels * 2) = 0
        \<and> byteLength data div (numChannels * 2) < 2 ^ 32
      \<longrightarrow> (\<exists>b. decodeAudioData data ctx rate numChannels = Inr b
             \<and> sampleRate b = rate
             \<and> frames b = byteLength data div (numChannels * 2)
             \<and> length (channels b) = numChannels
             \<and> (\<forall>c < numChannels. length (channels b ! c) = frames b
                  \<and> (\<forall>i < frames b.
                       \<exists>v q. v = int (unat (elements data ! (2 * (i * numChannels + c))))
                                   + 256 * int (unat (elements data ! (2 * (i * numChannels + c) + 1)))
                         \<and> q = of_int (if v < 32768 then v else v - 65536) / 32768
                         \<and> channels b ! c ! i = Num q \<and> - 1 \<le> q \<and> q < 1))))"
proof (intro conjI impI)
  show "decodeAudioData data ctx rate numChannels = Inl RangeError
      \<longleftrightarrow> length (arrayBuffer data) mod 2 \<noteq> 0"
    using decodeAudioData_odd [of data ctx rate numChannels]
      decodeAudioData_even [of data ctx rate numChannels]
    by blast
next
  assume "numChannels = 1 \<and> spans_buffer data \<and> byteLength data mod (numChannels * 2) \<noteq> 0"
  then have "length (arrayBuffer data) mod 2 \<noteq> 0" by (auto simp: spans_buffer_def)
  then show "decodeAudioData data ctx rate numChannels = Inl RangeError"
    by (rule decodeAudioData_odd)
next
  assume "arrayBuffer data = []"
  then show "decodeAudioData data ctx rate numChannels = Inl NotSupportedError"
    by (rule decodeAudioData_empty)
next
  let ?n = numChannels
  let ?F = "byteLength data div (?n * 2)"
  let ?buf = "arrayBuffer data"
  assume a: "0 < ?n \<and> ?n \<le> maxChannels ctx
        \<and> minSampleRate ctx \<le> rate \<and> rate \<le> maxSampleRate ctx
        \<and> spans_buffer data \<and> byteLength data \<noteq> 0
        \<and> byteLength data mod (?n * 2) = 0 \<and> ?F < 2 ^ 32"
  then have sp: "byteLength data = length ?buf" "elements data = ?buf"
    by (simp_all add: spans_buffer_def spans_buffer_elements)
  have len: "length ?buf = 2 * (?n * ?F)"
    using a div_mult_mod_eq [of "byteLength data" "?n * 2"] sp(1) by (simp add: mult.commute)
  have F: "0 < ?F"
  proof (rule ccontr)
    assume "\<not> 0 < ?F"
    then have "length ?buf = 0" using len by simp
    then show False using a sp(1) by simp
  qed
  define b where "b = \<lparr>sampleRate = rate, frames = ?F,
      channels = map (\<lambda>c. map (\<lambda>i. div_32768 (Some (int16_view ?buf ! (i * ?n + c)))) [0..<?F])
                   [0..<?n]\<rparr>"
  have d: "decodeAudioData data ctx rate ?n = Inr b"
    unfolding b_def using a by (intro decodeAudioData_wellformed [OF _ _ _ _ len F]) simp_all
  have s: "\<exists>v q. v = int (unat (elements data ! (2 * (i * ?n + c))))
                     + 256 * int (unat (elements data ! (2 * (i * ?n + c) + 1)))
             \<and> q = of_int (if v < 32768 then v else v - 65536) / 32768
             \<and> channels b ! c ! i = Num q \<and> - 1 \<le> q \<and> q < 1"
    if "c < ?n" "i < ?F" for c i
  proof -
    let ?k = "i * ?n + c"
    let ?v = "int (unat (?buf ! (2 * ?k))) + 256 * int (unat (?buf ! (2 * ?k + 1)))"
    have k: "?k < length ?buf div 2"
      using index_bound [OF that(2) that(1)] len by simp
    have "channels b ! c ! i = div_32768 (Some (int16_view ?buf ! ?k))"
      unfolding b_def using that by simp
    then have e: "channels b ! c ! i = Num (of_int (if ?v < 32768 then ?v else ?v - 65536) / 32768)"
      using sample_value [OF k] by simp
    have "0 \<le> ?v" "?v < 65536"
      using unat_byte [of "?buf ! (2 * ?k)"] unat_byte [of "?buf ! (2 * ?k + 1)"] by linarith+
    then show ?thesis unfolding sp(2) using e sample_range [of ?v] by blast
  qed
  show "\<exists>b. decodeAudioData data ctx rate ?n = Inr b \<and> sampleRate b = rate
          \<and> frames b = ?F \<and> length (channels b) = ?n
          \<and> (\<forall>c < ?n. length (channels b ! c) = frames b
               \<and> (\<forall>i < frames b.
                    \<exists>v q. v = int (unat (elements data ! (2 * (i * ?n + c))))
                                + 256 * int (unat (elements data ! (2 * (i * ?n + c) + 1)))
                      \<and> q = of_int (if v < 32768 then v else v - 65536) / 32768
                      \<and> channels b ! c ! i = Num q \<and> - 1 \<le> q \<and> q < 1))"
  proof (intro exI [of _ b] conjI allI impI)
    show "decodeAudioData data ctx rate ?n = Inr b" by (rule d)
    show "sampleRate b = rate" "frames b = ?F" "length (channels b) = ?n"
      by (simp_all add: b_def)
    fix c assume c: "c < ?n"
    then show "length (channels b ! c) = frames b" by (simp add: b_def)
    fix i assume "i < frames b"
    then have "i < ?F" by (simp add: b_def)
    then show "\<exists>v q. v = int (unat (elements data ! (2 * (i * ?n + c))))
                          + 256 * int (unat (elements data ! (2 * (i * ?n + c) + 1)))
                \<and> q = of_int (if v < 32768 then v else v - 65536) / 32768
                \<and> channels b ! c ! i = Num q \<and> - 1 \<le> q \<and> q < 1"
      using s [OF c] by blast
  qed
qed

theorem decodeAudioData_contract_witness:
  "(\<exists>b. decodeAudioData (new_Uint8Array [1, 0, 2, 0, 255, 255, 0, 128]) standardContext 24000 2
           = Inr b
      \<and> sampleRate b = 24000 \<and> frames b = 2 \<and> length (channels b) = 2
      \<and> channels b ! 1 ! 1 = Num (- 1))
   \<and> decodeAudioData (new_Uint8Array [1, 0, 2]) standardContext 24000 1 = Inl RangeError
   \<and> decodeAudioData (new_Uint8Array []) standardContext 24000 1 = Inl NotSupportedError"
proof -
  let ?bytes = "[1, 0, 2, 0, 255, 255, 0, 128] :: Uint8Array"
  let ?data = "new_Uint8Array ?bytes"
  have e: "elements ?data = ?bytes" "byteLength ?data = 8"
    by (simp_all add: spans_buffer_elements [OF spans_buffer_new] arrayBuffer_new)
      (simp add: new_Uint8Array_def)
  obtain b where b: "decodeAudioData ?data standardContext 24000 2 = Inr b"
      "sampleRate b = 24000" "frames b = 2" "length (channels b) = 2"
    and s: "\<forall>c < 2. length (channels b ! c) = frames b
              \<and> (\<forall>i < frames b.
                   \<exists>v q. v = int (unat (?bytes ! (2 * (i * 2 + c))))
                               + 256 * int (unat (?bytes ! (2 * (i * 2 + c) + 1)))
                     \<and> q = of_int (if v < 32768 then v else v - 65536) / 32768
                     \<and> channels b ! c ! i = Num q \<and> - 1 \<le> q \<and> q < 1)"
    using decodeAudioData_contract [where data = ?data and numChannels = 2
        and ctx = standardContext and rate = 24000]
    unfolding e by (auto simp: standardContext_def spans_buffer_new)
  have "channels b ! 1 ! 1 = Num (- 1)"
    using s [rule_format, of 1, THEN conjunct2, rule_format, of 1] b(3) by simp
  moreover have "decodeAudioData (new_Uint8Array [1, 0, 2]) standardContext 24000 1 = Inl RangeError"
    using decodeAudioData_contract [where data = "new_Uint8Array [1, 0, 2]" and numChannels = 1
        and ctx = standardContext and rate = 24000]
    by (simp add: spans_buffer_new) (simp add: new_Uint8Array_def)
  moreover have "decodeAudioData (new_Uint8Array []) standardContext 24000 1 = Inl NotSupportedError"
    using decodeAudioData_contract [where data = "new_Uint8Array []" and numChannels = 1
        and ctx = standardContext and rate = 24000]
    by (simp add: arrayBuffer_new)
  ultimately show ?thesis using b by blast
qed

lemma floor_3_2: "\<lfloor>3 / 2 :: rat\<rfloor> = 1" by (simp add: floor_eq_iff)
lemma ceiling_3_2: "\<lceil>3 / 2 :: rat\<rceil> = 2" by (simp add: ceiling_eq_iff)

text \<open>
  As the specification states it, the property fails. Six bytes are not a multiple of
  \<open>2 * 2\<close>, yet with two channels they decode to a buffer of one frame, the third sample
  being dropped. An array of three bytes that is a window into a buffer of four decodes,
  with one channel, to the two samples of the buffer. And the empty input, whose length is
  a multiple of every frame size, is rejected.
\<close>

theorem decodeAudioData_contract_counterexample:
  "byteLength (new_Uint8Array [1, 0, 2, 0, 3, 0]) mod (2 * 2) \<noteq> 0
     \<and> decodeAudioData (new_Uint8Array [1, 0, 2, 0, 3, 0]) standardContext 24000 2
         = Inr \<lparr>sampleRate = 24000, frames = 1,
                channels = [[Num (1 / 32768)], [Num (1 / 16384)]]\<rparr>
     \<and> elements \<lparr>arrayBuffer = [1, 0, 2, 0], byteOffset = 0, byteLength = 3\<rparr> = [1, 0, 2]
     \<and> decodeAudioData \<lparr>arrayBuffer = [1, 0, 2, 0], byteOffset = 0, byteLength = 3\<rparr>
           standardContext 24000 1
         = Inr \<lparr>sampleRate = 24000, frames = 2, channels = [[Num (1 / 32768), Num (1 / 16384)]]\<rparr>
     \<and> byteLength (new_Uint8Array []) mod (1 * 2) = 0
     \<and> decodeAudioData (new_Uint8Array []) standardContext 24000 1 = Inl NotSupportedError"
proof -
  have u: "ToUint32 (3 / 2) = 1" by (simp add: ToUint32_def floor_3_2)
  have up: "[0..<nat (2 :: int)] = [0, 1]" "[0..<(2 :: nat)] = [0, 1]"
    by (simp_all add: upt_rec)
  have r: "replicate 2 [Num 0] = [[Num 0], [Num 0]]" by (simp add: numeral_2_eq_2)
  have f0: "fill_channel [1, 2, 3] 2 (3 / 2) 0 [Num 0] = [Num (1 / 32768)]"
    by (simp add: fill_channel_def ceiling_3_2 up typed_store_def typed_read_def div_32768_def)
  have f1: "fill_channel [1, 2, 3] 2 (3 / 2) (Suc 0) [Num 0] = [Num (1 / 16384)]"
    by (simp add: fill_channel_def ceiling_3_2 up typed_store_def typed_read_def div_32768_def)
  have six: "decodeAudioData (new_Uint8Array [1, 0, 2, 0, 3, 0]) standardContext 24000 2
         = Inr \<lparr>sampleRate = 24000, frames = 1,
                channels = [[Num (1 / 32768)], [Num (1 / 16384)]]\<rparr>"
    by (simp add: decodeAudioData_def new_Int16Array_def createBuffer_def u up
      standardContext_def Let_def r f0 f1 new_Uint8Array_def)
  have "length (arrayBuffer \<lparr>arrayBuffer = [1, 0, 2, 0 :: 8 word], byteOffset = 0, byteLength = 3\<rparr>)
          = 2 * (1 * 2)"
    by simp
  then have "decodeAudioData \<lparr>arrayBuffer = [1, 0, 2, 0], byteOffset = 0, byteLength = 3\<rparr>
           standardContext 24000 1
         = Inr \<lparr>sampleRate = 24000, frames = 2,
                channels = map (\<lambda>c. map (\<lambda>i. div_32768 (Some (int16_view
                    (arrayBuffer \<lparr>arrayBuffer = [1, 0, 2, 0], byteOffset = 0, byteLength = 3\<rparr>)
                      ! (i * 1 + c)))) [0..<2]) [0..<1]\<rparr>"
    by (intro decodeAudioData_wellformed) (simp_all add: standardContext_def)
  then have window: "decodeAudioData \<lparr>arrayBuffer = [1, 0, 2, 0], byteOffset = 0, byteLength = 3\<rparr>
           standardContext 24000 1
         = Inr \<lparr>sampleRate = 24000, frames = 2, channels = [[Num (1 / 32768), Num (1 / 16384)]]\<rparr>"
    by (simp add: up div_32768_def)
  show ?thesis
    using six window
    by (simp add: decodeAudioData_empty arrayBuffer_new elements_def new_Uint8Array_def)
qed

section \<open>Message handling: playback scheduling\<close>

lemma handleInputTranscription_frame:
  "isMounted (handleInputTranscription m s) = isMounted s"
  "outputAudioContextRef (handleInputTranscription m s) = outputAudioContextRef s"
  "nextStartTimeRef (handleInputTranscription m s) = nextStartTimeRef s"
  "sourcesRef (handleInputTranscription m s) = sourcesRef s"
  "nodes (handleInputTranscription m s) = nodes s"
  "history (handleInputTranscription m s) = history s"
  "currentOutputTranscriptionRef (handleInputTranscription m s) = currentOutputTranscriptionRef s"
  "modelTranscription (handleInputTranscription m s) = modelTranscription s"
  by (simp_all add: handleInputTranscription_def Let_def split: option.split)

lemma handleOutputTranscription_frame:
  "isMounted (handleOutputTranscription m s) = isMounted s"
  "outputAudioContextRef (handleOutputTranscription m s) = outputAudioContextRef s"
  "nextStartTimeRef (handleOutputTranscription m s) = nextStartTimeRef s"
  "sourcesRef (handleOutputTranscription m s) = sourcesRef s"
  "nodes (handleOutputTranscription m s) = nodes s"
  "history (handleOutputTranscription m s) = history s"
  "currentInputTranscriptionRef (handleOutputTranscription m s) = currentInputTranscriptionRef s"
  "userTranscription (handleOutputTranscription m s) = userTranscription s"
  by (simp_all add: handleOutputTranscription_def Let_def split: option.split)

lemma handleTurnComplete_frame:
  "isMounted (handleTurnComplete m s) = isMounted s"
  "outputAudioContextRef (handleTurnComplete m s) = outputAudioContextRef s"
  "nextStartTimeRef (handleTurnComplete m s) = nextStartTimeRef s"
  "sourcesRef (handleTurnComplete m s) = sourcesRef s"
  "nodes (handleTurnComplete m s) = nodes s"
  by (simp_all add: handleTurnComplete_def Let_def)

lemma handleInterrupted_frame:
  "isMounted (handleInterrupted m s) = isMounted s"
  "outputAudioContextRef (handleInterrupted m s) = outputAudioContextRef s"
  "history (handleInterrupted m s) = history s"
  "currentInputTranscriptionRef (handleInterrupted m s) = currentInputTranscriptionRef s"
  "currentOutputTranscriptionRef (handleInterrupted m s) = currentOutputTranscriptionRef s"
  "userTranscription (handleInterrupted m s) = userTranscription s"
  "modelTranscription (handleInterrupted m s) = modelTranscription s"
  by (simp_all add: handleInterrupted_def)

lemma handleAudio_frame:
  "isMounted (fst (handleAudio t a s)) = isMounted s"
  "outputAudioContextRef (fst (handleAudio t a s)) = outputAudioContextRef s"
  "history (fst (handleAudio t a s)) = history s"
  "currentInputTranscriptionRef (fst (handleAudio t a s)) = currentInputTranscriptionRef s"
  "currentOutputTranscriptionRef (fst (handleAudio t a s)) = currentOutputTranscriptionRef s"
  "userTranscription (fst (handleAudio t a s)) = userTranscription s"
  "modelTranscription (fst (handleAudio t a s)) = modelTranscription s"
  by (simp_all add: handleAudio_def Let_def split: option.split sum.split)

lemma handleTranscripts_frame:
  "isMounted (handleTranscripts m s) = isMounted s"
  "outputAudioContextRef (handleTranscripts m s) = outputAudioContextRef s"
  "nextStartTimeRef (handleTranscripts m s) = nextStartTimeRef s"
  "sourcesRef (handleTranscripts m s) = sourcesRef s"
  "nodes (handleTranscripts m s) = nodes s"
  by (simp_all add: handleTranscripts_def handleTurnComplete_frame
      handleOutputTranscription_frame handleInputTranscription_frame)

lemma handleInterrupted_not:
  "\<not> is_interrupted m \<Longrightarrow> handleInterrupted m s = s"
  by (simp add: handleInterrupted_def is_interrupted_def)

lemma handleInterrupted_is:
  "is_interrupted m \<Longrightarrow>
     handleInterrupted m s
       = s\<lparr>nodes := stop_sources (sourcesRef s) (nodes s), sourcesRef := {},
            nextStartTimeRef := 0\<rparr>"
  by (simp add: handleInterrupted_def is_interrupted_def)

lemma handleAudio_success:
  assumes "outputAudioContextRef s = Some ctx" and "0 \<le> t"
    and "a \<noteq> []" and "decode a = Inr bytes"
    and "decodeAudioData (new_Uint8Array bytes) ctx 24000 1 = Inr b"
  shows "handleAudio t (Some a) s =
    (s\<lparr>nextStartTimeRef := max (nextStartTimeRef s) t + duration b,
       nodes := nodes s @ [\<lparr>buffer = b, startedAt = max (nextStartTimeRef s) t,
                             stopped = False\<rparr>],
       sourcesRef := insert (length (nodes s)) (sourcesRef s)\<rparr>, None)"
proof -
  have "\<not> max (nextStartTimeRef s) t < 0" using assms(2) by simp
  then show ?thesis using assms by (simp add: handleAudio_def Let_def)
qed

lemma handleAudio_failure:
  assumes "outputAudioContextRef s = Some ctx" and "a \<noteq> []"
    and "decode a = Inl e \<or> (\<exists>bytes. decode a = Inr bytes \<and> decodeAudioData (new_Uint8Array bytes) ctx 24000 1 = Inl e)"
  shows "handleAudio t (Some a) s = (s\<lparr>nextStartTimeRef := max (nextStartTimeRef s) t\<rparr>, Some e)"
  using assms by (auto simp: handleAudio_def Let_def)

lemma handleAudio_none: "handleAudio t None s = (s, None)"
  by (simp add: handleAudio_def)

lemma processMessage_fragment:
  assumes "isMounted s" and "outputAudioContextRef s = Some ctx" and "0 \<le> t"
    and "audioData_of m = Inr (Some a)" and "a \<noteq> []" and "decode a = Inr bytes"
    and "decodeAudioData (new_Uint8Array bytes) ctx 24000 1 = Inr b"
  shows "processMessage t m s =
    (handleInterrupted m ((handleTranscripts m s)
       \<lparr>nextStartTimeRef := max (nextStartTimeRef s) t + duration b,
        nodes := nodes s @ [\<lparr>buffer = b, startedAt = max (nextStartTimeRef s) t,
                              stopped = False\<rparr>],
        sourcesRef := insert (length (nodes s)) (sourcesRef s)\<rparr>), None)"
proof -
  have "handleAudio t (Some a) (handleTranscripts m s) =
    ((handleTranscripts m s)
       \<lparr>nextStartTimeRef := max (nextStartTimeRef s) t + duration b,
        nodes := nodes s @ [\<lparr>buffer = b, startedAt = max (nextStartTimeRef s) t,
                              stopped = False\<rparr>],
        sourcesRef := insert (length (nodes s)) (sourcesRef s)\<rparr>, None)"
    using handleAudio_success [of "handleTranscripts m s" ctx t a bytes b] assms
    by (simp add: handleTranscripts_frame)
  then show ?thesis using assms(1,4) by (simp add: processMessage_def Let_def)
qed

lemma processMessage_no_audio:
  assumes "isMounted s" and "audioData_of m = Inr None"
  shows "processMessage t m s = (handleInterrupted m (handleTranscripts m s), None)"
  using assms by (simp add: processMessage_def Let_def handleAudio_none)

lemma processMessage_decode_failure:
  assumes "isMounted s" and "outputAudioContextRef s = Some ctx"
    and "audioData_of m = Inr (Some a)" and "a \<noteq> []"
    and "decode a = Inl e \<or> (\<exists>bytes. decode a = Inr bytes \<and> decodeAudioData (new_Uint8Array bytes) ctx 24000 1 = Inl e)"
  shows "processMessage t m s =
    ((handleTranscripts m s)\<lparr>nextStartTimeRef := max (nextStartTimeRef s) t\<rparr>, Some e)"
proof -
  have "handleAudio t (Some a) (handleTranscripts m s) =
    ((handleTranscripts m s)\<lparr>nextStartTimeRef := max (nextStartTimeRef s) t\<rparr>, Some e)"
    using handleAudio_failure [of "handleTranscripts m s" ctx a e t] assms
    by (simp add: handleTranscripts_frame)
  then show ?thesis using assms(1,3) by (simp add: processMessage_def Let_def)
qed

lemma base64_encode_nonempty: "bs \<noteq> [] \<Longrightarrow> base64_encode bs \<noteq> []"
  by (cases bs rule: base64_encode.cases) (simp_all add: Let_def)

lemma decode_base64_encode: "decode (base64_encode bs) = Inr bs"
  by (simp add: decode_eq forgiving_base64_decode_encode)

lemma audioData_of_AudioFragment: "audioData_of (message_of (AudioFragment a)) = Inr (Some a)"
  by (simp add: audioData_of_def emptyContent_def)

lemma not_interrupted_AudioFragment: "\<not> is_interrupted (message_of (AudioFragment a))"
  by (simp add: is_interrupted_def emptyContent_def)

lemma decodeAudioData_silence:
  assumes "0 < F" and "F < 2 ^ 32"
  shows "\<exists>b. decodeAudioData (new_Uint8Array (replicate (2 * F) 0)) standardContext 24000 1 = Inr b
           \<and> duration b = of_nat F / 24000"
proof -
  let ?data = "new_Uint8Array (replicate (2 * F) 0)"
  have len: "length (arrayBuffer ?data) = 2 * (1 * F)" by (simp add: arrayBuffer_new)
  have n: "(0 :: nat) < 1" "1 \<le> maxChannels standardContext"
    and r: "minSampleRate standardContext \<le> 24000" "24000 \<le> maxSampleRate standardContext"
    by (simp_all add: standardContext_def)
  show ?thesis
    unfolding decodeAudioData_wellformed [OF n r len assms]
    by (simp add: duration_def)
qed

text \<open>
  C1. When a message carries a fragment that decodes to \<open>b\<close>, \<open>processMessage\<close> starts a new
  source for \<open>b\<close> at \<open>max nextStartTime currentTime\<close>, adds it to the in-flight set and sets
  the cursor to that start time plus the duration of \<open>b\<close>; a fragment that arrives while the
  clock has not passed the cursor therefore starts exactly where the previous one ends.
\<close>

theorem fragment_scheduled_at_cursor:
  assumes "isMounted s" and "outputAudioContextRef s = Some ctx" and "0 \<le> t"
    and "audioData_of m = Inr (Some a)" and "a \<noteq> []" and "decode a = Inr bytes"
    and "decodeAudioData (new_Uint8Array bytes) ctx 24000 1 = Inr b"
    and "\<not> is_interrupted m"
  shows "\<exists>s'. processMessage t m s = (s', None)
    \<and> nodes s' = nodes s @ [\<lparr>buffer = b, startedAt = max (nextStartTimeRef s) t, stopped = False\<rparr>]
    \<and> sourcesRef s' = insert (length (nodes s)) (sourcesRef s)
    \<and> nextStartTimeRef s' = max (nextStartTimeRef s) t + duration b
    \<and> isMounted s' \<and> outputAudioContextRef s' = Some ctx
    \<and> (t \<le> nextStartTimeRef s \<longrightarrow> startedAt (last (nodes s')) = nextStartTimeRef s)"
  using processMessage_fragment [OF assms(1-7)] assms(1,2,8)
  by (simp add: handleInterrupted_not handleTranscripts_frame max_def)

theorem fragment_scheduled_at_cursor_witness:
  "let s0 = mount standardContext;
       F1 = message_of (AudioFragment (base64_encode (replicate 24000 0)));
       F2 = message_of (AudioFragment (base64_encode (replicate 14400 0)));
       s1 = fst (processMessage 0 F1 s0);
       s2 = fst (processMessage 0 F2 s1)
   in map startedAt (nodes s2) = [0, 1 / 2] \<and> sourcesRef s2 = {0, 1}
        \<and> nextStartTimeRef s2 = 4 / 5"
proof -
  let ?s0 = "mount standardContext"
  let ?a1 = "base64_encode (replicate 24000 0)"
  let ?a2 = "base64_encode (replicate 14400 0)"
  let ?F1 = "message_of (AudioFragment ?a1)"
  let ?F2 = "message_of (AudioFragment ?a2)"
  obtain b1 where b1: "decodeAudioData (new_Uint8Array (replicate 24000 0)) standardContext 24000 1 = Inr b1"
      "duration b1 = 1 / 2"
    using decodeAudioData_silence [of 12000] by auto
  obtain b2 where b2: "decodeAudioData (new_Uint8Array (replicate 14400 0)) standardContext 24000 1 = Inr b2"
      "duration b2 = 3 / 10"
    using decodeAudioData_silence [of 7200] by auto
  have m0: "isMounted ?s0" "outputAudioContextRef ?s0 = Some standardContext"
    and n0: "nodes ?s0 = []" "sourcesRef ?s0 = {}" "nextStartTimeRef ?s0 = 0"
    by (simp_all add: mount_def)
  have z: "(0 :: rat) \<le> 0" by simp
  have ne: "?a1 \<noteq> []" "?a2 \<noteq> []" by (simp_all add: base64_encode_nonempty)
  have "\<exists>s'. processMessage 0 ?F1 ?s0 = (s', None)
    \<and> nodes s' = nodes ?s0 @ [\<lparr>buffer = b1, startedAt = max (nextStartTimeRef ?s0) 0, stopped = False\<rparr>]
    \<and> sourcesRef s' = insert (length (nodes ?s0)) (sourcesRef ?s0)
    \<and> nextStartTimeRef s' = max (nextStartTimeRef ?s0) 0 + duration b1
    \<and> isMounted s' \<and> outputAudioContextRef s' = Some standardContext
    \<and> (0 \<le> nextStartTimeRef ?s0 \<longrightarrow> startedAt (last (nodes s')) = nextStartTimeRef ?s0)"
    by (rule fragment_scheduled_at_cursor [OF m0 z audioData_of_AudioFragment ne(1)
          decode_base64_encode b1(1) not_interrupted_AudioFragment])
  then obtain s1 where s1: "processMessage 0 ?F1 ?s0 = (s1, None)"
      "nodes s1 = nodes ?s0 @ [\<lparr>buffer = b1, startedAt = max (nextStartTimeRef ?s0) 0, stopped = False\<rparr>]"
      "sourcesRef s1 = insert (length (nodes ?s0)) (sourcesRef ?s0)"
      "nextStartTimeRef s1 = max (nextStartTimeRef ?s0) 0 + duration b1"
      "isMounted s1" "outputAudioContextRef s1 = Some standardContext"
    by blast
  have "\<exists>s'. processMessage 0 ?F2 s1 = (s', None)
    \<and> nodes s' = nodes s1 @ [\<lparr>buffer = b2, startedAt = max (nextStartTimeRef s1) 0, stopped = False\<rparr>]
    \<and> sourcesRef s' = insert (length (nodes s1)) (sourcesRef s1)
    \<and> nextStartTimeRef s' = max (nextStartTimeRef s1) 0 + duration b2
    \<and> isMounted s' \<and> outputAudioContextRef s' = Some standardContext
    \<and> (0 \<le> nextStartTimeRef s1 \<longrightarrow> startedAt (last (nodes s')) = nextStartTimeRef s1)"
    by (rule fragment_scheduled_at_cursor [OF s1(5,6) z audioData_of_AudioFragment ne(2)
          decode_base64_encode b2(1) not_interrupted_AudioFragment])
  then obtain s2 where s2: "processMessage 0 ?F2 s1 = (s2, None)"
      "nodes s2 = nodes s1 @ [\<lparr>buffer = b2, startedAt = max (nextStartTimeRef s1) 0, stopped = False\<rparr>]"
      "sourcesRef s2 = insert (length (nodes s1)) (sourcesRef s1)"
      "nextStartTimeRef s2 = max (nextStartTimeRef s1) 0 + duration b2"
    by blast
  have "map startedAt (nodes s2) = [0, 1 / 2]"
    unfolding s2(2) s1(2) s1(4) n0 b1(2) by simp
  moreover have "sourcesRef s2 = {0, 1}"
    unfolding s2(3) s1(2) s1(3) n0 by auto
  moreover have "nextStartTimeRef s2 = 4 / 5"
    unfolding s2(4) s1(4) n0 b1(2) b2(2) by simp
  ultimately show ?thesis unfolding Let_def s1(1) fst_conv s2(1) by simp
qed

section \<open>Message handling: interruption\<close>

lemma length_stop_sources: "length (stop_sources ids ns) = length ns"
  by (simp add: stop_sources_def)

lemma nth_stop_sources:
  "i < length ns \<Longrightarrow>
     stop_sources ids ns ! i = (if i \<in> ids then (ns ! i)\<lparr>stopped := True\<rparr> else ns ! i)"
  by (simp add: stop_sources_def)

lemma processMessage_result:
  assumes "isMounted s" and "processMessage t m s = (s', None)"
  shows "\<exists>s4. s' = handleInterrupted m s4 \<and> length (nodes s) \<le> length (nodes s4)
           \<and> sourcesRef s \<subseteq> sourcesRef s4
           \<and> (\<forall>i < length (nodes s). nodes s4 ! i = nodes s ! i)
           \<and> isMounted s4 \<and> outputAudioContextRef s4 = outputAudioContextRef s"
proof -
  let ?s3 = "handleTranscripts m s"
  obtain ad where ad: "audioData_of m = Inr ad"
    using assms by (cases "audioData_of m") (simp_all add: processMessage_def Let_def)
  obtain s4 where s4: "handleAudio t ad ?s3 = (s4, None)" "s' = handleInterrupted m s4"
    using assms ad
    by (cases "handleAudio t ad ?s3") (auto simp: processMessage_def Let_def split: option.splits)
  have "length (nodes ?s3) \<le> length (nodes s4) \<and> sourcesRef ?s3 \<subseteq> sourcesRef s4
          \<and> (\<forall>i < length (nodes ?s3). nodes s4 ! i = nodes ?s3 ! i)
          \<and> isMounted s4 = isMounted ?s3 \<and> outputAudioContextRef s4 = outputAudioContextRef ?s3"
    using s4(1)
    by (auto simp: handleAudio_def Let_def nth_append split: option.splits sum.splits if_splits)
  then show ?thesis using s4(2) assms(1) by (auto simp: handleTranscripts_frame)
qed

lemma audioData_of_Interrupted: "audioData_of (message_of Interrupted) = Inr None"
  by (simp add: audioData_of_def emptyContent_def)

lemma is_interrupted_Interrupted: "is_interrupted (message_of Interrupted)"
  by (simp add: is_interrupted_def emptyContent_def)

lemma handleTranscripts_AudioFragment: "handleTranscripts (message_of (AudioFragment a)) s = s"
  by (simp add: handleTranscripts_def handleTurnComplete_def handleOutputTranscription_def
      handleInputTranscription_def emptyContent_def)

lemma processMessage_AudioFragment:
  assumes "isMounted s" and "outputAudioContextRef s = Some ctx" and "0 \<le> t"
    and "a \<noteq> []" and "decode a = Inr bytes"
    and "decodeAudioData (new_Uint8Array bytes) ctx 24000 1 = Inr b"
  shows "processMessage t (message_of (AudioFragment a)) s =
    (s\<lparr>nextStartTimeRef := max (nextStartTimeRef s) t + duration b,
       nodes := nodes s @ [\<lparr>buffer = b, startedAt = max (nextStartTimeRef s) t,
                             stopped = False\<rparr>],
       sourcesRef := insert (length (nodes s)) (sourcesRef s)\<rparr>, None)"
  unfolding processMessage_fragment [OF assms(1-3) audioData_of_AudioFragment assms(4-6)]
    handleInterrupted_not [OF not_interrupted_AudioFragment] handleTranscripts_AudioFragment ..

lemma two_fragments_played:
  "\<exists>s2 b1 b2.
     processMessages
       [(0, message_of (AudioFragment (base64_encode (replicate 24000 0)))),
        (0, message_of (AudioFragment (base64_encode (replicate 14400 0))))]
       (mount standardContext) = s2
     \<and> isMounted s2 \<and> outputAudioContextRef s2 = Some standardContext
     \<and> nodes s2 = [\<lparr>buffer = b1, startedAt = 0, stopped = False\<rparr>,
                    \<lparr>buffer = b2, startedAt = 1 / 2, stopped = False\<rparr>]
     \<and> sourcesRef s2 = {0, 1} \<and> nextStartTimeRef s2 = 4 / 5"
proof -
  let ?s0 = "mount standardContext"
  let ?a1 = "base64_encode (replicate 24000 0)"
  let ?a2 = "base64_encode (replicate 14400 0)"
  let ?F1 = "message_of (AudioFragment ?a1)"
  let ?F2 = "message_of (AudioFragment ?a2)"
  obtain b1 where b1: "decodeAudioData (new_Uint8Array (replicate 24000 0)) standardContext 24000 1 = Inr b1"
      "duration b1 = 1 / 2"
    using decodeAudioData_silence [of 12000] by auto
  obtain b2 where b2: "decodeAudioData (new_Uint8Array (replicate 14400 0)) standardContext 24000 1 = Inr b2"
      "duration b2 = 3 / 10"
    using decodeAudioData_silence [of 7200] by auto
  have m0: "isMounted ?s0" "outputAudioContextRef ?s0 = Some standardContext"
    and n0: "nodes ?s0 = []" "sourcesRef ?s0 = {}" "nextStartTimeRef ?s0 = 0"
    by (simp_all add: mount_def)
  have z: "(0 :: rat) \<le> 0" by simp
  have ne: "?a1 \<noteq> []" "?a2 \<noteq> []" by (simp_all add: base64_encode_nonempty)
  define s1 where "s1 = fst (processMessage 0 ?F1 ?s0)"
  have s1: "isMounted s1" "outputAudioContextRef s1 = Some standardContext"
    "nodes s1 = [\<lparr>buffer = b1, startedAt = 0, stopped = False\<rparr>]"
    "sourcesRef s1 = {0}" "nextStartTimeRef s1 = 1 / 2"
    unfolding s1_def
      processMessage_AudioFragment [OF m0 z ne(1) decode_base64_encode b1(1)]
    using m0 n0 b1(2) by simp_all
  define s2 where "s2 = fst (processMessage 0 ?F2 s1)"
  have s2: "isMounted s2" "outputAudioContextRef s2 = Some standardContext"
    "nodes s2 = [\<lparr>buffer = b1, startedAt = 0, stopped = False\<rparr>,
                 \<lparr>buffer = b2, startedAt = 1 / 2, stopped = False\<rparr>]"
    "sourcesRef s2 = {0, 1}" "nextStartTimeRef s2 = 4 / 5"
    unfolding s2_def
      processMessage_AudioFragment [OF s1(1,2) z ne(2) decode_base64_encode b2(1)]
    using s1 b2(2) by auto
  have "processMessages [(0, ?F1), (0, ?F2)] ?s0 = s2"
    by (simp add: processMessages_def s1_def s2_def)
  with s2 show ?thesis by blast
qed

text \<open>
  C2. Handling a message with the \<open>interrupted\<close> flag stops every source of the in-flight
  set, empties the set and resets the cursor to zero; a fragment handled afterwards starts
  at \<open>max 0 currentTime\<close>, whatever the cursor was before the interruption.
\<close>

theorem interrupted_stops_and_resets:
  assumes "isMounted s" and "is_interrupted m" and "processMessage t m s = (s', None)"
  shows "sourcesRef s' = {} \<and> nextStartTimeRef s' = 0
    \<and> (\<forall>i \<in> sourcesRef s. i < length (nodes s) \<longrightarrow>
          stopped (nodes s' ! i) \<and> buffer (nodes s' ! i) = buffer (nodes s ! i)
            \<and> startedAt (nodes s' ! i) = startedAt (nodes s ! i))
    \<and> (\<forall>t2 m2 a2 bytes2 b2 ctx.
          0 \<le> t2 \<and> outputAudioContextRef s = Some ctx \<and> audioData_of m2 = Inr (Some a2)
            \<and> a2 \<noteq> [] \<and> decode a2 = Inr bytes2
            \<and> decodeAudioData (new_Uint8Array bytes2) ctx 24000 1 = Inr b2 \<and> \<not> is_interrupted m2
          \<longrightarrow> (\<exists>s''. processMessage t2 m2 s' = (s'', None)
                 \<and> nodes s'' = nodes s' @ [\<lparr>buffer = b2, startedAt = max 0 t2, stopped = False\<rparr>]
                 \<and> sourcesRef s'' = {length (nodes s')}))"
proof -
  obtain s4 where s4: "s' = handleInterrupted m s4" "length (nodes s) \<le> length (nodes s4)"
      "sourcesRef s \<subseteq> sourcesRef s4" "\<forall>i < length (nodes s). nodes s4 ! i = nodes s ! i"
      "isMounted s4" "outputAudioContextRef s4 = outputAudioContextRef s"
    using processMessage_result [OF assms(1,3)] by blast
  have s': "s' = s4\<lparr>nodes := stop_sources (sourcesRef s4) (nodes s4), sourcesRef := {},
                     nextStartTimeRef := 0\<rparr>"
    unfolding s4(1) by (rule handleInterrupted_is [OF assms(2)])
  have a: "sourcesRef s' = {}" "nextStartTimeRef s' = 0" "isMounted s'"
    "outputAudioContextRef s' = outputAudioContextRef s"
    unfolding s' using s4(5,6) by simp_all
  have b: "stopped (nodes s' ! i) \<and> buffer (nodes s' ! i) = buffer (nodes s ! i)
             \<and> startedAt (nodes s' ! i) = startedAt (nodes s ! i)"
    if "i \<in> sourcesRef s" "i < length (nodes s)" for i
  proof -
    have "i \<in> sourcesRef s4" "i < length (nodes s4)" "nodes s4 ! i = nodes s ! i"
      using that s4(2,3,4) by auto
    then show ?thesis unfolding s' by (simp add: nth_stop_sources)
  qed
  have c: "\<exists>s''. processMessage t2 m2 s' = (s'', None)
             \<and> nodes s'' = nodes s' @ [\<lparr>buffer = b2, startedAt = max 0 t2, stopped = False\<rparr>]
             \<and> sourcesRef s'' = {length (nodes s')}"
    if "0 \<le> t2" "outputAudioContextRef s = Some ctx" "audioData_of m2 = Inr (Some a2)"
      "a2 \<noteq> []" "decode a2 = Inr bytes2" "decodeAudioData (new_Uint8Array bytes2) ctx 24000 1 = Inr b2"
      "\<not> is_interrupted m2"
    for t2 m2 a2 bytes2 b2 ctx
  proof -
    have ctx: "outputAudioContextRef s' = Some ctx" using a(4) that(2) by simp
    show ?thesis
      unfolding processMessage_fragment [OF a(3) ctx that(1) that(3-6)]
      using a(1,2) by (simp add: handleInterrupted_not [OF that(7)] handleTranscripts_frame)
  qed
  show ?thesis using a(1,2) b c by blast
qed

theorem interrupted_stops_and_resets_witness:
  "let s2 = processMessages
              [(0, message_of (AudioFragment (base64_encode (replicate 24000 0)))),
               (0, message_of (AudioFragment (base64_encode (replicate 14400 0))))]
              (mount standardContext);
       s3 = fst (processMessage (1 / 5) (message_of Interrupted) s2);
       s4 = fst (processMessage (1 / 5)
                   (message_of (AudioFragment (base64_encode (replicate 4800 0)))) s3)
   in nextStartTimeRef s2 = 4 / 5 \<and> sourcesRef s3 = {} \<and> nextStartTimeRef s3 = 0
        \<and> stopped (nodes s3 ! 0) \<and> stopped (nodes s3 ! 1)
        \<and> map startedAt (nodes s4) = [0, 1 / 2, 1 / 5]"
proof -
  let ?a3 = "base64_encode (replicate 4800 0)"
  let ?F3 = "message_of (AudioFragment ?a3)"
  obtain s2 b1 b2 where s2: "processMessages
       [(0, message_of (AudioFragment (base64_encode (replicate 24000 0)))),
        (0, message_of (AudioFragment (base64_encode (replicate 14400 0))))]
       (mount standardContext) = s2"
     "isMounted s2" "outputAudioContextRef s2 = Some standardContext"
     "nodes s2 = [\<lparr>buffer = b1, startedAt = 0, stopped = False\<rparr>,
                  \<lparr>buffer = b2, startedAt = 1 / 2, stopped = False\<rparr>]"
     "sourcesRef s2 = {0, 1}" "nextStartTimeRef s2 = 4 / 5"
    using two_fragments_played by blast
  obtain b3 where b3: "decodeAudioData (new_Uint8Array (replicate 4800 0)) standardContext 24000 1 = Inr b3"
    using decodeAudioData_silence [of 2400] by auto
  define s3 where "s3 = fst (processMessage (1 / 5) (message_of Interrupted) s2)"
  have p3: "processMessage (1 / 5) (message_of Interrupted) s2 = (s3, None)"
    unfolding s3_def processMessage_no_audio [OF s2(2) audioData_of_Interrupted] by simp
  note th = interrupted_stops_and_resets [OF s2(2) is_interrupted_Interrupted p3]
  have a: "sourcesRef s3 = {}" "nextStartTimeRef s3 = 0" using th by simp_all
  have st: "stopped (nodes s3 ! 0) \<and> buffer (nodes s3 ! 0) = buffer (nodes s2 ! 0)
              \<and> startedAt (nodes s3 ! 0) = startedAt (nodes s2 ! 0)"
    "stopped (nodes s3 ! 1) \<and> buffer (nodes s3 ! 1) = buffer (nodes s2 ! 1)
              \<and> startedAt (nodes s3 ! 1) = startedAt (nodes s2 ! 1)"
    using th s2(4,5) by simp_all
  have l3: "length (nodes s3) = 2"
    unfolding s3_def processMessage_no_audio [OF s2(2) audioData_of_Interrupted] fst_conv
      handleInterrupted_is [OF is_interrupted_Interrupted]
    using s2(4) by (simp add: length_stop_sources handleTranscripts_frame)
  have "(1 / 5 :: rat) \<ge> 0" by simp
  then have "\<exists>s''. processMessage (1 / 5) ?F3 s3 = (s'', None)
      \<and> nodes s'' = nodes s3 @ [\<lparr>buffer = b3, startedAt = max 0 (1 / 5), stopped = False\<rparr>]
      \<and> sourcesRef s'' = {length (nodes s3)}"
    using th s2(3) audioData_of_AudioFragment [of ?a3] base64_encode_nonempty [of "replicate 4800 0"]
      decode_base64_encode [of "replicate 4800 0"] b3 not_interrupted_AudioFragment [of ?a3]
    by (intro th [THEN conjunct2, THEN conjunct2, THEN conjunct2, rule_format]) simp_all
  then obtain s4 where s4: "processMessage (1 / 5) ?F3 s3 = (s4, None)"
      "nodes s4 = nodes s3 @ [\<lparr>buffer = b3, startedAt = max 0 (1 / 5), stopped = False\<rparr>]"
    by blast
  have "map startedAt (nodes s3) = [0, 1 / 2]"
    using l3 st s2(4) by (intro nth_equalityI) (auto simp: less_Suc_eq numeral_2_eq_2)
  then have "map startedAt (nodes s4) = [0, 1 / 2, 1 / 5]" unfolding s4(2) by simp
  then show ?thesis
    unfolding Let_def s2(1) s3_def [symmetric] s4(1) fst_conv using a st s2(6) by simp
qed

section \<open>Message handling: transcripts and turns\<close>

lemma handleTranscripts_without_interrupted:
  "handleTranscripts (without_interrupted m) s = handleTranscripts m s"
  by (cases "serverContent m")
    (simp_all add: handleTranscripts_def handleTurnComplete_def handleOutputTranscription_def
      handleInputTranscription_def without_interrupted_def)

lemma handleTranscripts_without_modelTurn:
  "handleTranscripts (without_modelTurn m) s = handleTranscripts m s"
  by (cases "serverContent m")
    (simp_all add: handleTranscripts_def handleTurnComplete_def handleOutputTranscription_def
      handleInputTranscription_def without_modelTurn_def)

lemma audioData_of_without_interrupted:
  "audioData_of (without_interrupted m) = audioData_of m"
  by (cases "serverContent m") (simp_all add: audioData_of_def without_interrupted_def)

lemma audioData_of_without_modelTurn: "audioData_of (without_modelTurn m) = Inr None"
  by (cases "serverContent m") (simp_all add: audioData_of_def without_modelTurn_def)

lemma not_interrupted_without: "\<not> is_interrupted (without_interrupted m)"
  by (cases "serverContent m") (simp_all add: is_interrupted_def without_interrupted_def)

lemma transcript_fields_handleTranscripts_Interrupted:
  "handleTranscripts (message_of Interrupted) s = s"
  by (simp add: handleTranscripts_def handleTurnComplete_def handleOutputTranscription_def
      handleInputTranscription_def emptyContent_def)

lemma processMessage_transcript_fields:
  "currentInputTranscriptionRef (fst (processMessage t m s))
      = currentInputTranscriptionRef (handleTranscripts m s)
   \<and> currentOutputTranscriptionRef (fst (processMessage t m s))
      = currentOutputTranscriptionRef (handleTranscripts m s)
   \<and> userTranscription (fst (processMessage t m s)) = userTranscription (handleTranscripts m s)
   \<and> modelTranscription (fst (processMessage t m s)) = modelTranscription (handleTranscripts m s)
   \<and> history (fst (processMessage t m s)) = history (handleTranscripts m s)"
  if "isMounted s"
proof (cases "audioData_of m")
  case (Inl e)
  then show ?thesis using that by (simp add: processMessage_def Let_def)
next
  case (Inr ad)
  obtain s4 e where h: "handleAudio t ad (handleTranscripts m s) = (s4, e)"
    by (cases "handleAudio t ad (handleTranscripts m s)")
  have f: "fst (handleAudio t ad (handleTranscripts m s)) = s4" using h by simp
  have "fst (processMessage t m s) = s4 \<or> fst (processMessage t m s) = handleInterrupted m s4"
    using that Inr h by (cases e) (simp_all add: processMessage_def Let_def)
  then show ?thesis
    using handleAudio_frame [of t ad "handleTranscripts m s", unfolded f]
    by (auto simp: handleInterrupted_frame)
qed

lemma processMessage_Interrupted:
  "isMounted s \<Longrightarrow>
     processMessage t (message_of Interrupted) s
       = (s\<lparr>nodes := stop_sources (sourcesRef s) (nodes s), sourcesRef := {},
             nextStartTimeRef := 0\<rparr>, None)"
  unfolding processMessage_no_audio [OF _ audioData_of_Interrupted]
    handleInterrupted_is [OF is_interrupted_Interrupted]
    transcript_fields_handleTranscripts_Interrupted ..

lemma processMessage_InputTranscriptionDelta:
  "isMounted s \<Longrightarrow>
     processMessage t (message_of (InputTranscriptionDelta x)) s
       = (s\<lparr>currentInputTranscriptionRef := currentInputTranscriptionRef s @ x,
             userTranscription := currentInputTranscriptionRef s @ x\<rparr>, None)"
  by (simp add: processMessage_def Let_def audioData_of_def emptyContent_def handleAudio_none
      handleInterrupted_def handleTranscripts_def handleTurnComplete_def
      handleOutputTranscription_def handleInputTranscription_def append_text_def)

lemma processMessage_OutputTranscriptionDelta:
  "isMounted s \<Longrightarrow>
     processMessage t (message_of (OutputTranscriptionDelta x)) s
       = (s\<lparr>currentOutputTranscriptionRef := currentOutputTranscriptionRef s @ x,
             modelTranscription := currentOutputTranscriptionRef s @ x\<rparr>, None)"
  by (simp add: processMessage_def Let_def audioData_of_def emptyContent_def handleAudio_none
      handleInterrupted_def handleTranscripts_def handleTurnComplete_def
      handleOutputTranscription_def handleInputTranscription_def append_text_def)

lemma processMessage_TurnComplete:
  "isMounted s \<Longrightarrow>
     processMessage t (message_of TurnComplete) s
       = ((if js_trim (currentInputTranscriptionRef s) \<noteq> []
              \<or> js_trim (currentOutputTranscriptionRef s) \<noteq> []
           then s\<lparr>history := history s @
                    [\<lparr>user = currentInputTranscriptionRef s,
                      model = currentOutputTranscriptionRef s\<rparr>]\<rparr>
           else s)
          \<lparr>currentInputTranscriptionRef := [], currentOutputTranscriptionRef := [],
           userTranscription := [], modelTranscription := []\<rparr>, None)"
  by (simp add: processMessage_def Let_def audioData_of_def emptyContent_def handleAudio_none
      handleInterrupted_def handleTranscripts_def handleTurnComplete_def
      handleOutputTranscription_def handleInputTranscription_def)

lemma js_trim_nonempty: "js_trim x \<noteq> [] \<longleftrightarrow> (\<exists>c \<in> set x. \<not> js_whitespace c)"
proof -
  let ?d = "dropWhile js_whitespace x"
  have "js_trim x = [] \<longleftrightarrow> (\<forall>c \<in> set ?d. js_whitespace c)"
    by (simp add: js_trim_def dropWhile_eq_Nil_conv)
  also have "\<dots> \<longleftrightarrow> ?d = []"
  proof
    assume a: "\<forall>c \<in> set ?d. js_whitespace c"
    show "?d = []"
    proof (rule ccontr)
      assume n: "?d \<noteq> []"
      then have "\<not> js_whitespace (hd ?d)" by (rule hd_dropWhile)
      moreover have "hd ?d \<in> set ?d" using n by simp
      ultimately show False using a by blast
    qed
  next
    assume "?d = []"
    then show "\<forall>c \<in> set ?d. js_whitespace c"
      by (auto dest: set_dropWhileD simp: dropWhile_eq_Nil_conv)
  qed
  also have "\<dots> \<longleftrightarrow> (\<forall>c \<in> set x. js_whitespace c)" by (simp add: dropWhile_eq_Nil_conv)
  finally show ?thesis by blast
qed

lemma processMessages_Cons:
  "processMessages ((t, m) # ms) s = processMessages ms (fst (processMessage t m s))"
  by (simp add: processMessages_def)

lemma processMessages_append:
  "processMessages (ms @ ms') s = processMessages ms' (processMessages ms s)"
  by (simp add: processMessages_def)

lemma deltas_accumulate:
  assumes "isMounted s" and "\<forall>e \<in> set es. is_delta (snd e)"
  shows "isMounted (processMessages (map (\<lambda>(t, e). (t, message_of e)) es) s)
    \<and> currentInputTranscriptionRef (processMessages (map (\<lambda>(t, e). (t, message_of e)) es) s)
        = currentInputTranscriptionRef s @ concat (map (user_text \<circ> snd) es)
    \<and> currentOutputTranscriptionRef (processMessages (map (\<lambda>(t, e). (t, message_of e)) es) s)
        = currentOutputTranscriptionRef s @ concat (map (model_text \<circ> snd) es)
    \<and> history (processMessages (map (\<lambda>(t, e). (t, message_of e)) es) s) = history s"
  using assms
proof (induction es arbitrary: s)
  case Nil
  then show ?case by (simp add: processMessages_def)
next
  case (Cons te es)
  obtain t e where te: "te = (t, e)" by (cases te)
  have d: "is_delta e" using Cons.prems(2) te by simp
  let ?s1 = "fst (processMessage t (message_of e) s)"
  have s1: "isMounted ?s1 \<and> history ?s1 = history s
      \<and> currentInputTranscriptionRef ?s1 = currentInputTranscriptionRef s @ user_text e
      \<and> currentOutputTranscriptionRef ?s1 = currentOutputTranscriptionRef s @ model_text e"
  proof (cases e)
    case (InputTranscriptionDelta x)
    then show ?thesis
      using Cons.prems(1) by (simp add: processMessage_InputTranscriptionDelta del: message_of.simps)
  next
    case (OutputTranscriptionDelta x)
    then show ?thesis
      using Cons.prems(1) by (simp add: processMessage_OutputTranscriptionDelta del: message_of.simps)
  qed (use d in simp_all)
  have "\<forall>e \<in> set es. is_delta (snd e)" using Cons.prems(2) by simp
  from Cons.IH [OF conjunct1 [OF s1] this] s1 show ?case
    unfolding te by (simp add: processMessages_Cons del: message_of.simps)
qed

text \<open>
  C3, as the code has it. After any sequence of transcription deltas, \<open>TurnComplete\<close> appends
  the pair of pending texts to the history if and only if at least one of them has a
  character that is not white space (the code tests the trimmed strings), and in every case
  empties both pending strings and both live-display values; with both pending strings
  empty nothing is appended.
\<close>

theorem turn_complete_after_deltas:
  assumes "isMounted s" and "\<forall>e \<in> set es. is_delta (snd e)"
  shows "let U = currentInputTranscriptionRef s @ concat (map (user_text \<circ> snd) es);
             M = currentOutputTranscriptionRef s @ concat (map (model_text \<circ> snd) es);
             s' = processMessages (map (\<lambda>(t, e). (t, message_of e)) (es @ [(t, TurnComplete)])) s
         in history s' =
              (if (\<exists>c \<in> set U. \<not> js_whitespace c) \<or> (\<exists>c \<in> set M. \<not> js_whitespace c)
               then history s @ [\<lparr>user = U, model = M\<rparr>] else history s)
            \<and> currentInputTranscriptionRef s' = [] \<and> currentOutputTranscriptionRef s' = []
            \<and> userTranscription s' = [] \<and> modelTranscription s' = []
            \<and> (U = [] \<and> M = [] \<longrightarrow> history s' = history s)"
proof -
  let ?s1 = "processMessages (map (\<lambda>(t, e). (t, message_of e)) es) s"
  note d = deltas_accumulate [OF assms]
  have m: "isMounted ?s1" using d by simp
  have "processMessages (map (\<lambda>(t, e). (t, message_of e)) (es @ [(t, TurnComplete)])) s
          = fst (processMessage t (message_of TurnComplete) ?s1)"
    by (simp add: processMessages_append processMessages_Cons processMessages_def
        del: message_of.simps)
  then show ?thesis
    unfolding Let_def processMessage_TurnComplete [OF m] fst_conv
    using d by (auto simp: js_trim_nonempty)
qed

theorem turn_complete_after_deltas_witness:
  "(let s' = processMessages
               [(0, message_of (InputTranscriptionDelta (js ''Hel''))),
                (0, message_of (InputTranscriptionDelta (js ''lo''))),
                (0, message_of (OutputTranscriptionDelta (js ''Hi''))),
                (0, message_of TurnComplete)]
               (mount standardContext)
    in history s' = [\<lparr>user = js ''Hello'', model = js ''Hi''\<rparr>]
         \<and> currentInputTranscriptionRef s' = [] \<and> currentOutputTranscriptionRef s' = []
         \<and> userTranscription s' = [] \<and> modelTranscription s' = [])
   \<and> history (processMessages [(0, message_of TurnComplete)] (mount standardContext)) = []"
proof -
  have w: "\<not> js_whitespace 72" by (simp add: js_whitespace_def)
  have m: "isMounted (mount standardContext)" by (simp add: mount_def)
  have "let s' = processMessages
               [(0, message_of (InputTranscriptionDelta (js ''Hel''))),
                (0, message_of (InputTranscriptionDelta (js ''lo''))),
                (0, message_of (OutputTranscriptionDelta (js ''Hi''))),
                (0, message_of TurnComplete)]
               (mount standardContext)
    in history s' = [\<lparr>user = js ''Hello'', model = js ''Hi''\<rparr>]
         \<and> currentInputTranscriptionRef s' = [] \<and> currentOutputTranscriptionRef s' = []
         \<and> userTranscription s' = [] \<and> modelTranscription s' = []"
    using turn_complete_after_deltas [OF m, of
        "[(0, InputTranscriptionDelta (js ''Hel'')), (0, InputTranscriptionDelta (js ''lo'')),
          (0, OutputTranscriptionDelta (js ''Hi''))]" 0] w
    by (simp add: Let_def mount_def js_def del: message_of.simps)
  moreover have
    "history (processMessages [(0, message_of TurnComplete)] (mount standardContext)) = []"
    using turn_complete_after_deltas [OF m, of "[]" 0]
    by (simp add: Let_def mount_def del: message_of.simps)
  ultimately show ?thesis by simp
qed

text \<open>
  As the specification states it, the property fails: after the delta \<open>" "\<close> the pending user text is not empty, yet
  \<open>TurnComplete\<close> appends nothing, because the text is empty once trimmed.
\<close>

theorem turn_complete_blank_counterexample:
  "currentInputTranscriptionRef
       (processMessages [(0, message_of (InputTranscriptionDelta (js '' '')))]
          (mount standardContext)) \<noteq> []
   \<and> history
       (processMessages
          [(0, message_of (InputTranscriptionDelta (js '' ''))), (0, message_of TurnComplete)]
          (mount standardContext)) = []"
proof -
  have m: "isMounted (mount standardContext)" by (simp add: mount_def)
  have t: "js_trim (js '' '') = []" "js_trim [] = []" "js '' '' \<noteq> []"
    by (simp_all add: js_trim_def js_def js_whitespace_def)
  show ?thesis
    unfolding processMessages_Cons processMessage_InputTranscriptionDelta [OF m] fst_conv
    by (simp add: processMessages_def processMessage_TurnComplete t mount_def
        del: message_of.simps)
qed

text \<open>
  C9. The \<open>interrupted\<close> flag of a message has no effect on the pending transcript texts,
  the live-display values or the history: they are what the same message without the flag
  leaves. An \<open>Interrupted\<close> event by itself changes only the source nodes (stopped), the
  in-flight set and the cursor.
\<close>

theorem interrupted_keeps_transcripts:
  "currentInputTranscriptionRef (fst (processMessage t m s))
      = currentInputTranscriptionRef (fst (processMessage t (without_interrupted m) s))
   \<and> currentOutputTranscriptionRef (fst (processMessage t m s))
      = currentOutputTranscriptionRef (fst (processMessage t (without_interrupted m) s))
   \<and> userTranscription (fst (processMessage t m s))
      = userTranscription (fst (processMessage t (without_interrupted m) s))
   \<and> modelTranscription (fst (processMessage t m s))
      = modelTranscription (fst (processMessage t (without_interrupted m) s))
   \<and> history (fst (processMessage t m s))
      = history (fst (processMessage t (without_interrupted m) s))
   \<and> fst (processMessage t (message_of Interrupted) s)
      = (if isMounted s
         then s\<lparr>nodes := stop_sources (sourcesRef s) (nodes s), sourcesRef := {},
                 nextStartTimeRef := 0\<rparr>
         else s)
   \<and> currentInputTranscriptionRef (fst (processMessage t (message_of Interrupted) s))
      = currentInputTranscriptionRef s
   \<and> currentOutputTranscriptionRef (fst (processMessage t (message_of Interrupted) s))
      = currentOutputTranscriptionRef s"
proof (cases "isMounted s")
  case True
  show ?thesis
    using processMessage_transcript_fields [OF True, of t m]
      processMessage_transcript_fields [OF True, of t "without_interrupted m"]
    unfolding handleTranscripts_without_interrupted processMessage_Interrupted [OF True]
    using True by simp
next
  case False
  then show ?thesis by (simp add: processMessage_def)
qed

theorem interrupted_keeps_transcripts_witness:
  "let s = processMessages
             [(0, message_of (InputTranscriptionDelta (js ''Hel''))),
              (0, message_of (OutputTranscriptionDelta (js ''Hi'')))]
             (mount standardContext);
       s' = fst (processMessage 1 (message_of Interrupted) s)
   in currentInputTranscriptionRef s' = js ''Hel'' \<and> currentOutputTranscriptionRef s' = js ''Hi''"
proof -
  let ?s = "processMessages
             [(0, message_of (InputTranscriptionDelta (js ''Hel''))),
              (0, message_of (OutputTranscriptionDelta (js ''Hi'')))]
             (mount standardContext)"
  have m: "isMounted (mount standardContext)" by (simp add: mount_def)
  have "currentInputTranscriptionRef ?s = js ''Hel'' \<and> currentOutputTranscriptionRef ?s = js ''Hi''"
    using deltas_accumulate [OF m, of
        "[(0, InputTranscriptionDelta (js ''Hel'')), (0, OutputTranscriptionDelta (js ''Hi''))]"]
    by (simp add: mount_def del: message_of.simps)
  then show ?thesis
    using interrupted_keeps_transcripts [of 1 "message_of Interrupted" ?s]
    unfolding Let_def by simp
qed

section \<open>Message handling: failures\<close>

lemma decode_bang: "decode (js ''!'') = Inl InvalidCharacterError"
  by (simp add: decode_def atob_def forgiving_base64_decode_def strip_padding_def
      ascii_whitespace_def js_def)

lemma silence_6: "\<exists>b. decodeAudioData (new_Uint8Array (replicate 6 0)) standardContext 24000 1 = Inr b"
  using decodeAudioData_silence [of 3] by auto

text \<open>
  C7 fails on the code. \<open>processMessage\<close> calls \<open>decode\<close> and \<open>decodeAudioData\<close> outside any
  \<open>try\<close>, where \<open>handlePlayAudio\<close> (lines 204-218) wraps the same two calls in \<open>try/catch\<close>
  with \<open>console.error\<close>. An undecodable fragment therefore is not caught and logged: the
  exception leaves the handler, nothing is written to the console, and the rest of the
  message is skipped. A message that carries such a fragment together with the
  \<open>interrupted\<close> flag leaves the in-flight source playing and in the set, where the
  interruption alone stops it and empties the set.
\<close>

theorem processMessage_decode_failure_escapes:
  "(let r = processMessage 1 (message_of (AudioFragment (js ''!''))) (mount standardContext)
    in r = ((mount standardContext)\<lparr>nextStartTimeRef := 1\<rparr>, Some InvalidCharacterError)
         \<and> consoleErrors (fst r) = [])
   \<and> (let s1 = fst (processMessage 0
                      (message_of (AudioFragment (base64_encode (replicate 6 0))))
                      (mount standardContext));
           bad = \<lparr>serverContent = Some (emptyContent
                    \<lparr>modelTurn := Some \<lparr>parts = Some [\<lparr>inlineData = Some \<lparr>blobData = Some (js ''!'')\<rparr>\<rparr>]\<rparr>,
                     interrupted := True\<rparr>)\<rparr>;
           r = processMessage 1 bad s1;
           r' = processMessage 1 (message_of Interrupted) s1
       in sourcesRef s1 = {0}
            \<and> snd r = Some InvalidCharacterError \<and> consoleErrors (fst r) = []
            \<and> sourcesRef (fst r) = {0} \<and> \<not> stopped (nodes (fst r) ! 0)
            \<and> snd r' = None \<and> sourcesRef (fst r') = {} \<and> stopped (nodes (fst r') ! 0))"
proof -
  let ?F = "message_of (AudioFragment (base64_encode (replicate 6 0)))"
  let ?bad = "\<lparr>serverContent = Some (emptyContent
                 \<lparr>modelTurn := Some \<lparr>parts = Some [\<lparr>inlineData = Some \<lparr>blobData = Some (js ''!'')\<rparr>\<rparr>]\<rparr>,
                  interrupted := True\<rparr>)\<rparr>"
  obtain b where b: "decodeAudioData (new_Uint8Array (replicate 6 0)) standardContext 24000 1 = Inr b"
    using silence_6 by blast
  have m: "isMounted (mount standardContext)"
    "outputAudioContextRef (mount standardContext) = Some standardContext"
    by (simp_all add: mount_def)
  have z: "(0 :: rat) \<le> 0" by simp
  have ne: "base64_encode (replicate 6 0) \<noteq> []" by (simp add: base64_encode_nonempty)
  have n: "js ''!'' \<noteq> []" by (simp add: js_def)
  have d: "decode (js ''!'') = Inl InvalidCharacterError
             \<or> (\<exists>bytes. decode (js ''!'') = Inr bytes
                   \<and> decodeAudioData (new_Uint8Array bytes) standardContext 24000 1
                        = Inl InvalidCharacterError)"
    by (simp add: decode_bang)
  have first: "processMessage 1 (message_of (AudioFragment (js ''!''))) (mount standardContext)
      = ((mount standardContext)\<lparr>nextStartTimeRef := 1\<rparr>, Some InvalidCharacterError)"
    unfolding processMessage_decode_failure [OF m audioData_of_AudioFragment n d]
      handleTranscripts_AudioFragment
    by (simp add: mount_def)
  have c0: "consoleErrors ((mount standardContext)\<lparr>nextStartTimeRef := 1\<rparr>) = []"
    by (simp add: mount_def)
  define s1 where "s1 = fst (processMessage 0 ?F (mount standardContext))"
  have s1: "isMounted s1" "outputAudioContextRef s1 = Some standardContext"
    "nodes s1 = [\<lparr>buffer = b, startedAt = 0, stopped = False\<rparr>]" "sourcesRef s1 = {0}"
    "consoleErrors s1 = []"
    unfolding s1_def processMessage_AudioFragment [OF m z ne decode_base64_encode b]
    by (simp_all add: mount_def)
  have a: "audioData_of ?bad = Inr (Some (js ''!''))"
    by (simp add: audioData_of_def emptyContent_def)
  have t: "handleTranscripts ?bad s1 = s1"
    by (simp add: handleTranscripts_def handleTurnComplete_def handleOutputTranscription_def
        handleInputTranscription_def emptyContent_def)
  have r: "snd (processMessage 1 ?bad s1) = Some InvalidCharacterError"
    "consoleErrors (fst (processMessage 1 ?bad s1)) = []"
    "sourcesRef (fst (processMessage 1 ?bad s1)) = {0}"
    "\<not> stopped (nodes (fst (processMessage 1 ?bad s1)) ! 0)"
    unfolding processMessage_decode_failure [OF s1(1,2) a n d] t
    using s1(3,4,5) by simp_all
  have r': "snd (processMessage 1 (message_of Interrupted) s1) = None"
    "sourcesRef (fst (processMessage 1 (message_of Interrupted) s1)) = {}"
    "stopped (nodes (fst (processMessage 1 (message_of Interrupted) s1)) ! 0)"
    unfolding processMessage_Interrupted [OF s1(1)]
    using s1(3,4) by (simp_all add: nth_stop_sources)
  show ?thesis
    unfolding Let_def s1_def [symmetric] first fst_conv c0 using s1(4) r r' by simp
qed

text \<open>
  C10 fails on the code. The chain \<open>parts[0]?.inlineData.data\<close> guards a missing
  first part but not a missing \<open>inlineData\<close>, nor a missing \<open>parts\<close>: for a first part without
  inline data (a text part) \<open>processMessage\<close> raises \<open>TypeError\<close>.
\<close>

theorem processMessage_part_without_inlineData:
  "processMessage 0
     \<lparr>serverContent = Some (emptyContent
        \<lparr>modelTurn := Some \<lparr>parts = Some [\<lparr>inlineData = None\<rparr>]\<rparr>\<rparr>)\<rparr>
     (mount standardContext) = (mount standardContext, Some TypeError)
   \<and> processMessage 0
        \<lparr>serverContent = Some (emptyContent\<lparr>modelTurn := Some \<lparr>parts = None\<rparr>\<rparr>)\<rparr>
        (mount standardContext) = (mount standardContext, Some TypeError)"
  by (simp add: processMessage_def Let_def audioData_of_def emptyContent_def
      handleTranscripts_def handleTurnComplete_def handleOutputTranscription_def
      handleInputTranscription_def mount_def)

section \<open>Life cycle: a denied microphone\<close>

lemma step_no_session:
  assumes "connectLiveCalls s = 0" and "\<not> sessionPromiseRef s"
    and "\<not> micPending s \<or> e \<noteq> MicGranted"
  shows "connectLiveCalls (step e s) = 0 \<and> \<not> sessionPromiseRef (step e s)
    \<and> (\<not> micPending s \<longrightarrow> \<not> micPending (step e s))"
  using assms
  by (cases e) (auto simp: setupLive_resume_def unmount_def sourceEnded_def Let_def
      split: sum.split)

lemma run_Cons: "run (e # es) s = run es (step e s)"
  by (simp add: run_def)

lemma run_append: "run (es @ es') s = run es' (run es s)"
  by (simp add: run_def)

lemma run_no_session_settled:
  assumes "connectLiveCalls s = 0" and "\<not> sessionPromiseRef s" and "\<not> micPending s"
  shows "connectLiveCalls (run es s) = 0 \<and> \<not> sessionPromiseRef (run es s)
    \<and> \<not> micPending (run es s)"
  using assms
proof (induction es arbitrary: s)
  case Nil
  then show ?case by (simp add: run_def)
next
  case (Cons e es)
  have "connectLiveCalls (step e s) = 0 \<and> \<not> sessionPromiseRef (step e s)
      \<and> \<not> micPending (step e s)"
    using step_no_session [of s e] Cons.prems by simp
  then show ?case using Cons.IH [of "step e s"] by (simp add: run_Cons)
qed

lemma run_no_session_pending:
  assumes "connectLiveCalls s = 0" and "\<not> sessionPromiseRef s" and "MicGranted \<notin> set es"
  shows "connectLiveCalls (run es s) = 0 \<and> \<not> sessionPromiseRef (run es s)"
  using assms
proof (induction es arbitrary: s)
  case Nil
  then show ?case by (simp add: run_def)
next
  case (Cons e es)
  have "connectLiveCalls (step e s) = 0 \<and> \<not> sessionPromiseRef (step e s)"
    using step_no_session [of s e] Cons.prems by auto
  then show ?case using Cons.IH [of "step e s"] Cons.prems(3) by (simp add: run_Cons)
qed

lemma step_denied_kept:
  assumes "connectLiveCalls s = 0" and "\<not> micPending s"
    and "status s = ''Error''" and "permissionError s = Some msg"
  shows "status (step e s) = ''Error'' \<and> permissionError (step e s) = Some msg"
  using assms
  by (cases e) (auto simp: unmount_def sourceEnded_def Let_def split: sum.split)

lemma run_denied_kept:
  assumes "connectLiveCalls s = 0" and "\<not> sessionPromiseRef s" and "\<not> micPending s"
    and "status s = ''Error''" and "permissionError s = Some msg"
  shows "status (run es s) = ''Error'' \<and> permissionError (run es s) = Some msg"
  using assms
proof (induction es arbitrary: s)
  case Nil
  then show ?case by (simp add: run_def)
next
  case (Cons e es)
  have a: "connectLiveCalls (step e s) = 0 \<and> \<not> sessionPromiseRef (step e s)
      \<and> \<not> micPending (step e s)"
    using step_no_session [of s e] Cons.prems by simp
  have b: "status (step e s) = ''Error'' \<and> permissionError (step e s) = Some msg"
    using step_denied_kept [of s msg e] Cons.prems by simp
  show ?case using Cons.IH [of "step e s"] a b by (simp add: run_Cons)
qed

text \<open>
  Until the promise of \<open>getUserMedia\<close> settles, or once it has been rejected while the
  component was mounted, a mounted component stays in such a state under every event but a
  grant and an unmount.
\<close>

lemma step_waiting:
  assumes "isMounted s" and "connectLiveCalls s = 0" and "\<not> sessionPromiseRef s"
    and "micPending s \<or> (status s = ''Error'' \<and> permissionError s =
           Some ''Microphone access denied. Please enable it in your browser settings and restart the conversation.'')"
    and "e \<noteq> MicGranted" and "e \<noteq> Unmount"
  shows "isMounted (step e s) \<and> connectLiveCalls (step e s) = 0 \<and> \<not> sessionPromiseRef (step e s)
    \<and> (micPending (step e s) \<or> (status (step e s) = ''Error'' \<and> permissionError (step e s) =
           Some ''Microphone access denied. Please enable it in your browser settings and restart the conversation.''))"
  using assms
  by (cases e) (auto simp: setupLive_resume_def sourceEnded_def Let_def split: sum.split)

lemma run_waiting:
  assumes "isMounted s" and "connectLiveCalls s = 0" and "\<not> sessionPromiseRef s"
    and "micPending s \<or> (status s = ''Error'' \<and> permissionError s =
           Some ''Microphone access denied. Please enable it in your browser settings and restart the conversation.'')"
    and "MicGranted \<notin> set es" and "Unmount \<notin> set es"
  shows "isMounted (run es s) \<and> connectLiveCalls (run es s) = 0 \<and> \<not> sessionPromiseRef (run es s)
    \<and> (micPending (run es s) \<or> (status (run es s) = ''Error'' \<and> permissionError (run es s) =
           Some ''Microphone access denied. Please enable it in your browser settings and restart the conversation.''))"
  using assms
proof (induction es arbitrary: s)
  case Nil
  then show ?case by (simp add: run_def)
next
  case (Cons e es)
  have "isMounted (step e s) \<and> connectLiveCalls (step e s) = 0 \<and> \<not> sessionPromiseRef (step e s)
    \<and> (micPending (step e s) \<or> (status (step e s) = ''Error'' \<and> permissionError (step e s) =
           Some ''Microphone access denied. Please enable it in your browser settings and restart the conversation.''))"
    using step_waiting [of s e] Cons.prems by auto
  then show ?case using Cons.IH [of "step e s"] Cons.prems(5,6) by (simp add: run_Cons)
qed

lemma mount_waiting:
  "isMounted (mount ctx)" "connectLiveCalls (mount ctx) = 0" "\<not> sessionPromiseRef (mount ctx)"
  "micPending (mount ctx)"
  by (simp_all add: mount_def)

lemma spec_status_denied:
  "permissionError s = Some message \<Longrightarrow> message \<noteq> [] \<Longrightarrow> spec_status s = PermissionDenied"
  by (simp add: spec_status_def)

lemma step_MicDenied_unmounted:
  "\<not> isMounted s \<Longrightarrow>
     status (step MicDenied s) = status s \<and> permissionError (step MicDenied s) = permissionError s"
  by (simp add: setupLive_resume_def Let_def)

text \<open>
  C8, as the code has it. In a run of the component in which \<open>getUserMedia\<close> is rejected
  (no grant precedes the denial), \<open>connectLive\<close> is never called and no session promise is
  ever stored, whatever happens before and after the denial. If the component has not been
  unmounted when the denial arrives, the status becomes \<open>Error\<close> and \<open>permissionError\<close> the
  remediation message of the source, which the component renders as the remediation panel,
  the specification's \<open>PermissionDenied\<close>, and this stays so. If it has been unmounted, the
  guard of the \<open>catch\<close> block leaves status and message as they were.
\<close>

theorem mic_denied_never_opens_session:
  assumes "MicGranted \<notin> set es1"
  shows "connectLiveCalls (run (es1 @ MicDenied # es2) (mount ctx)) = 0
    \<and> \<not> sessionPromiseRef (run (es1 @ MicDenied # es2) (mount ctx))
    \<and> (Unmount \<notin> set es1 \<longrightarrow>
         status (run (es1 @ [MicDenied]) (mount ctx)) = ''Error''
         \<and> permissionError (run (es1 @ [MicDenied]) (mount ctx)) =
             Some ''Microphone access denied. Please enable it in your browser settings and restart the conversation.''
         \<and> spec_status (run (es1 @ [MicDenied]) (mount ctx)) = PermissionDenied
         \<and> status (run (es1 @ MicDenied # es2) (mount ctx)) = ''Error''
         \<and> permissionError (run (es1 @ MicDenied # es2) (mount ctx)) =
             Some ''Microphone access denied. Please enable it in your browser settings and restart the conversation.''
         \<and> spec_status (run (es1 @ MicDenied # es2) (mount ctx)) = PermissionDenied)
    \<and> (\<not> isMounted (run es1 (mount ctx)) \<longrightarrow>
         status (run (es1 @ [MicDenied]) (mount ctx)) = status (run es1 (mount ctx))
         \<and> permissionError (run (es1 @ [MicDenied]) (mount ctx))
             = permissionError (run es1 (mount ctx)))"
proof -
  let ?msg = "''Microphone access denied. Please enable it in your browser settings and restart the conversation.''"
  let ?s1 = "run es1 (mount ctx)"
  let ?s2 = "step MicDenied ?s1"
  have r: "run (es1 @ MicDenied # es2) (mount ctx) = run es2 ?s2"
    "run (es1 @ [MicDenied]) (mount ctx) = ?s2"
    by (simp_all add: run_append run_Cons run_def)
  have p1: "connectLiveCalls ?s1 = 0 \<and> \<not> sessionPromiseRef ?s1"
    by (rule run_no_session_pending [OF mount_waiting(2,3) assms])
  have p2: "connectLiveCalls ?s2 = 0" "\<not> sessionPromiseRef ?s2" "\<not> micPending ?s2"
    using p1 by (simp_all add: setupLive_resume_def Let_def)
  note p3 = run_no_session_settled [OF p2, of es2]
  have ne: "?msg \<noteq> []" by simp
  have d: "status ?s2 = ''Error'' \<and> permissionError ?s2 = Some ?msg
      \<and> status (run es2 ?s2) = ''Error'' \<and> permissionError (run es2 ?s2) = Some ?msg"
    if "Unmount \<notin> set es1"
  proof -
    have w: "isMounted ?s1 \<and> connectLiveCalls ?s1 = 0 \<and> \<not> sessionPromiseRef ?s1
        \<and> (micPending ?s1 \<or> (status ?s1 = ''Error'' \<and> permissionError ?s1 = Some ?msg))"
      using mount_waiting(4) by (intro run_waiting [OF mount_waiting(1-3) _ assms that]) simp
    then have e: "status ?s2 = ''Error''" "permissionError ?s2 = Some ?msg"
      by (auto simp: setupLive_resume_def Let_def)
    show ?thesis using e run_denied_kept [OF p2 e, of es2] by simp
  qed
  have u: "status ?s2 = status ?s1 \<and> permissionError ?s2 = permissionError ?s1"
    if "\<not> isMounted ?s1"
    using that by (rule step_MicDenied_unmounted)
  show ?thesis
    unfolding r using p3 d u spec_status_denied [OF _ ne] by blast
qed

theorem mic_denied_never_opens_session_witness:
  "(let s = run [SourceEnded 0, MicDenied, MicGranted, OnOpen, Unmount] (mount standardContext)
    in connectLiveCalls s = 0 \<and> \<not> sessionPromiseRef s \<and> status s = ''Error''
         \<and> permissionError s =
             Some ''Microphone access denied. Please enable it in your browser settings and restart the conversation.''
         \<and> spec_status s = PermissionDenied)
   \<and> (let s = run [Unmount, MicDenied] (mount standardContext)
       in connectLiveCalls s = 0 \<and> \<not> sessionPromiseRef s \<and> status s = ''Initializing...''
            \<and> permissionError s = None)"
proof -
  have "let s = run [SourceEnded 0, MicDenied, MicGranted, OnOpen, Unmount] (mount standardContext)
    in connectLiveCalls s = 0 \<and> \<not> sessionPromiseRef s \<and> status s = ''Error''
         \<and> permissionError s =
             Some ''Microphone access denied. Please enable it in your browser settings and restart the conversation.''
         \<and> spec_status s = PermissionDenied"
    using mic_denied_never_opens_session [of "[SourceEnded 0]" "[MicGranted, OnOpen, Unmount]"
        standardContext]
    by (simp add: Let_def)
  moreover have u: "\<not> isMounted (run [Unmount] (mount standardContext))"
    "status (run [Unmount] (mount standardContext)) = ''Initializing...''"
    "permissionError (run [Unmount] (mount standardContext)) = None"
    by (simp_all add: run_def unmount_def mount_def Let_def)
  have "let s = run [Unmount, MicDenied] (mount standardContext)
       in connectLiveCalls s = 0 \<and> \<not> sessionPromiseRef s \<and> status s = ''Initializing...''
            \<and> permissionError s = None"
    using mic_denied_never_opens_session [of "[Unmount]" "[]" standardContext] u
    by (simp add: Let_def)
  ultimately show ?thesis by simp
qed

text \<open>
  As the specification states it, the property fails for a run in which the component is
  unmounted before the denial arrives: no session is opened, but the status stays
  \<open>Initializing...\<close> and no remediation message is set.
\<close>

theorem mic_denied_after_unmount_counterexample:
  "let s = run [Unmount, MicDenied] (mount standardContext)
   in status s = ''Initializing...'' \<and> permissionError s = None
        \<and> spec_status s = Initializing \<and> spec_status s \<noteq> PermissionDenied"
  by (simp add: run_def unmount_def mount_def setupLive_resume_def spec_status_def Let_def)

end
